theory Spec2Isabelle
  imports Complex_Main "HOL-Library.Sublist" "HOL-Library.Log_Nat"
begin

section \<open>JavaScript values and the fetch helper (lib/httpHelper.ts)\<close>

text \<open>
  The value that \<open>res.json()\<close> resolves to, and the values \<open>httpGet\<close> hands on. An object
  is the list of its own properties, each key once; \<open>JUndefined\<close> is what reading an absent
  property gives. A number is the double that the literal parses to.
\<close>

datatype jsval =
    JUndefined
  | JNull
  | JBool bool
  | JNum rat
  | JStr string
  | JArr "jsval list"
  | JObj "(string \<times> jsval) list"

text \<open>
  What \<open>httpGet\<close> can throw: \<open>new Error(msg)\<close>, carrying the value given to the constructor
  (a string is the error's message as it is), the \<open>SyntaxError\<close> of \<open>res.json()\<close> on a body
  that is not JSON, and the \<open>TypeError\<close> of reading a property of \<open>null\<close>.
\<close>

datatype js_error = Error jsval | SyntaxError | TypeError

text \<open>The response as \<open>fetch\<close> resolves it: its status and what its body parses to.\<close>

record response =
  status :: nat
  body :: "jsval option"

definition ok :: "response \<Rightarrow> bool" where
  "ok res = (200 \<le> status res \<and> status res \<le> 299)"

definition json :: "response \<Rightarrow> js_error + jsval" where
  "json res = (case body res of None \<Rightarrow> Inl SyntaxError | Some v \<Rightarrow> Inr v)"

fun truthy :: "jsval \<Rightarrow> bool" where
  "truthy JUndefined = False"
| "truthy JNull = False"
| "truthy (JBool b) = b"
| "truthy (JNum n) = (n \<noteq> 0)"
| "truthy (JStr s) = (s \<noteq> [])"
| "truthy (JArr _) = True"
| "truthy (JObj _) = True"

definition js_or :: "jsval \<Rightarrow> jsval \<Rightarrow> jsval" where
  "js_or a b = (if truthy a then a else b)"

text \<open>
  Reading the property \<open>k\<close> (here \<open>message\<close> or \<open>data\<close>, which no primitive and no array
  has): a \<open>TypeError\<close> on \<open>null\<close> and \<open>undefined\<close>, the property of an object when it has
  one, \<open>undefined\<close> otherwise.
\<close>

fun get_prop :: "jsval \<Rightarrow> string \<Rightarrow> js_error + jsval" where
  "get_prop JUndefined k = Inl TypeError"
| "get_prop JNull k = Inl TypeError"
| "get_prop (JObj kvs) k = Inr (case map_of kvs k of None \<Rightarrow> JUndefined | Some v \<Rightarrow> v)"
| "get_prop v k = Inr JUndefined"

definition digit_char :: "nat \<Rightarrow> char" where
  "digit_char d = ''0123456789'' ! d"

fun show_nat :: "nat \<Rightarrow> string" where
  "show_nat n = (if n < 10 then [digit_char n] else show_nat (n div 10) @ [digit_char (n mod 10)])"

declare show_nat.simps [simp del]

definition http_error_text :: "nat \<Rightarrow> string" where
  "http_error_text code = ''HTTP error! status: '' @ show_nat code"

text \<open>
  \<open>httpGet\<close>, from the resolved response on (a rejection of \<open>fetch\<close> itself passes
  through unchanged). In the failure branch every exception of the \<open>try\<close> block is
  swallowed by the empty \<open>catch\<close>, and \<open>msg\<close> keeps its initial text.
\<close>

definition httpGet :: "response \<Rightarrow> js_error + jsval" where
  "httpGet res =
     (if \<not> ok res then
        (let msg0 = JStr (http_error_text (status res));
             msg = (case json res of
                      Inl e \<Rightarrow> msg0
                    | Inr errData \<Rightarrow>
                        (case get_prop errData ''message'' of
                           Inl e \<Rightarrow> msg0
                         | Inr m \<Rightarrow> js_or m msg0))
         in Inl (Error msg))
      else
        (case json res of
           Inl e \<Rightarrow> Inl e
         | Inr j \<Rightarrow> get_prop j ''data''))"

text \<open>
  The message a parsed failure body carries: the \<open>message\<close> property of an object, when it
  is there and is not empty (not falsy).
\<close>

definition carried_message :: "jsval \<Rightarrow> jsval option" where
  "carried_message j =
     (case j of
        JObj kvs \<Rightarrow>
          (case map_of kvs ''message'' of
             None \<Rightarrow> None
           | Some m \<Rightarrow> if truthy m then Some m else None)
      | _ \<Rightarrow> None)"

text \<open>
  The number that a string of decimal digits writes, and the strings that write a number
  in the usual way: digits only, at least one, and no leading zero but in \<open>0\<close> itself.
\<close>

definition digit_value :: "char \<Rightarrow> nat" where
  "digit_value c = of_char c - 48"

definition decimal_value :: "string \<Rightarrow> nat" where
  "decimal_value ds = foldl (\<lambda>a c. 10 * a + digit_value c) 0 ds"

definition is_decimal :: "string \<Rightarrow> bool" where
  "is_decimal ds =
     (ds \<noteq> [] \<and> set ds \<subseteq> set ''0123456789'' \<and> (hd ds \<noteq> CHR ''0'' \<or> ds = ''0''))"

section \<open>Records (interfaces/users.ts, interfaces/trips.ts)\<close>

text \<open>
  The fields that the pages read. A field that the code reads only through \<open>?.\<close>, \<open>??\<close>,
  \<open>||\<close> or \<open>!\<close> is an option, \<open>None\<close> being an absent (undefined or null) field, which
  these operators do not tell apart. The field \<open>type\<close> is also used as a property key, which
  does tell them apart, so it keeps the three cases. The amounts are the numbers that the
  literals parse to.
\<close>

datatype opt_string = Undefined | Null | Str string

record user =
  user_id :: int
  name :: "string option"
  surname :: "string option"
  user_type :: opt_string
  plate_number :: "string option"
  car_model :: "string option"
  is_active :: bool
  is_onboarded :: bool
  last_login_at :: "string option"
  phone :: "string option"
  reward_amount :: "rat option"

record company =
  company_name :: "string option"

record trip =
  code :: "string option"
  guide :: "user option"
  driver :: "user option"
  company :: "company option"
  is_finished :: bool
  is_cancelled :: bool
  total_amount :: "rat option"

section \<open>Strings\<close>

text \<open>
  A string is the list of the bytes of its UTF-8 form, so that the characters of ASCII are
  single bytes below 128; on well-formed strings, one contains another as a run of UTF-16
  code units exactly when it does as a run of bytes. \<open>String.prototype.toLowerCase\<close> is
  the language's own: it follows the case mappings of Unicode, which are not a map on
  characters, and it is the parameter \<open>toLowerCase\<close> of the functions that call it.

  \<open>s.includes(t)\<close>: \<open>t\<close> occurs in \<open>s\<close> as a contiguous run.
\<close>

fun js_includes :: "string \<Rightarrow> string \<Rightarrow> bool" where
  "js_includes [] t = (t = [])"
| "js_includes (c # cs) t = (prefix t (c # cs) \<or> js_includes cs t)"

text \<open>\<open>f?.toLowerCase().includes(searchTerm.toLowerCase())\<close> and \<open>f?.includes(searchTerm)\<close>.\<close>

definition includes_lower :: "(string \<Rightarrow> string) \<Rightarrow> string option \<Rightarrow> string \<Rightarrow> bool" where
  "includes_lower toLowerCase f searchTerm =
     (case f of None \<Rightarrow> False | Some s \<Rightarrow> js_includes (toLowerCase s) (toLowerCase searchTerm))"

definition includes_exact :: "string option \<Rightarrow> string \<Rightarrow> bool" where
  "includes_exact f searchTerm =
     (case f of None \<Rightarrow> False | Some s \<Rightarrow> js_includes s searchTerm)"

section \<open>The dashboard page (app/page.tsx): filteredUsers\<close>

definition users_matchesSearch :: "(string \<Rightarrow> string) \<Rightarrow> string \<Rightarrow> user \<Rightarrow> bool" where
  "users_matchesSearch toLowerCase searchTerm u =
     (includes_lower toLowerCase (name u) searchTerm \<or>
      includes_lower toLowerCase (surname u) searchTerm \<or>
      includes_exact (phone u) searchTerm \<or>
      includes_lower toLowerCase (plate_number u) searchTerm)"

definition users_matchesType :: "string \<Rightarrow> user \<Rightarrow> bool" where
  "users_matchesType filterType u = (filterType = ''all'' \<or> user_type u = Str filterType)"

definition reward_or_0 :: "user \<Rightarrow> rat" where
  "reward_or_0 u = (case reward_amount u of None \<Rightarrow> 0 | Some r \<Rightarrow> r)"

text \<open>The comparator handed to \<open>sort\<close>.\<close>

definition compare_users :: "user \<Rightarrow> user \<Rightarrow> rat" where
  "compare_users a b =
     (let rewardA = reward_or_0 a; rewardB = reward_or_0 b in
      if rewardA \<noteq> rewardB then rewardB - rewardA
      else
        (let onboardedA = (if is_onboarded a then 1 else 0);
             onboardedB = (if is_onboarded b then 1 else 0)
         in onboardedB - onboardedA))"

text \<open>
  \<open>Array.prototype.sort\<close> with a comparator. The language fixes the result, not the
  algorithm: the elements in an order in which no element is followed by one that the
  comparator puts before it, elements that compare equal keeping their order (the sort is
  stable). Here the result is computed by insertion from the right.
\<close>

fun insert_sorted :: "('a \<Rightarrow> 'a \<Rightarrow> rat) \<Rightarrow> 'a \<Rightarrow> 'a list \<Rightarrow> 'a list" where
  "insert_sorted cmp x [] = [x]"
| "insert_sorted cmp x (y # ys) =
     (if cmp x y \<le> 0 then x # y # ys else y # insert_sorted cmp x ys)"

definition js_sort :: "('a \<Rightarrow> 'a \<Rightarrow> rat) \<Rightarrow> 'a list \<Rightarrow> 'a list" where
  "js_sort cmp xs = foldr (insert_sorted cmp) xs []"

definition filteredUsers ::
  "(string \<Rightarrow> string) \<Rightarrow> user list \<Rightarrow> string \<Rightarrow> string \<Rightarrow> user list" where
  "filteredUsers toLowerCase users searchTerm filterType =
     js_sort compare_users
       (filter (\<lambda>u. users_matchesSearch toLowerCase searchTerm u \<and>
                     users_matchesType filterType u) users)"

section \<open>The trips page: filteredTrips, uniqueGuides, filteredUsers\<close>

definition opt_field :: "'a option \<Rightarrow> ('a \<Rightarrow> 'b option) \<Rightarrow> 'b option" where
  "opt_field r f = (case r of None \<Rightarrow> None | Some x \<Rightarrow> f x)"

definition trips_matchesSearch :: "(string \<Rightarrow> string) \<Rightarrow> string \<Rightarrow> trip \<Rightarrow> bool" where
  "trips_matchesSearch toLowerCase searchTerm t =
     (includes_lower toLowerCase (opt_field (guide t) name) searchTerm \<or>
      includes_lower toLowerCase (opt_field (guide t) surname) searchTerm \<or>
      includes_lower toLowerCase (opt_field (driver t) name) searchTerm \<or>
      includes_lower toLowerCase (opt_field (driver t) surname) searchTerm \<or>
      includes_exact (opt_field (guide t) phone) searchTerm \<or>
      includes_exact (opt_field (driver t) phone) searchTerm \<or>
      includes_lower toLowerCase (code t) searchTerm \<or>
      includes_lower toLowerCase (opt_field (company t) company_name) searchTerm)"

definition trips_matchesType :: "string \<Rightarrow> trip \<Rightarrow> bool" where
  "trips_matchesType filterType t =
     (filterType = ''all'' \<or>
      (filterType = ''finished'' \<and> is_finished t) \<or>
      (filterType = ''cancelled'' \<and> is_cancelled t) \<or>
      (filterType = ''active'' \<and> \<not> is_finished t \<and> \<not> is_cancelled t))"

definition filteredTrips ::
  "(string \<Rightarrow> string) \<Rightarrow> trip list \<Rightarrow> string \<Rightarrow> string \<Rightarrow> trip list" where
  "filteredTrips toLowerCase trips searchTerm filterType =
     filter (\<lambda>t. trips_matchesSearch toLowerCase searchTerm t \<and>
                  trips_matchesType filterType t) trips"

text \<open>\<open>trips.map((trip) => trip.guide).filter((g) => !!g)\<close>\<close>

definition guides :: "trip list \<Rightarrow> user list" where
  "guides trips = map the (filter (\<lambda>g. g \<noteq> None) (map guide trips))"

text \<open>\<open>findIndex\<close>: the first index at which the predicate holds, \<open>-1\<close> when there is none.\<close>

fun findIndex_from :: "('a \<Rightarrow> bool) \<Rightarrow> nat \<Rightarrow> 'a list \<Rightarrow> int" where
  "findIndex_from p k [] = - 1"
| "findIndex_from p k (x # xs) = (if p x then int k else findIndex_from p (Suc k) xs)"

definition findIndex :: "('a \<Rightarrow> bool) \<Rightarrow> 'a list \<Rightarrow> int" where
  "findIndex p xs = findIndex_from p 0 xs"

text \<open>\<open>filter\<close> with a callback that reads the element, its index and the array.\<close>

definition filter_indexed :: "('a \<Rightarrow> nat \<Rightarrow> 'a list \<Rightarrow> bool) \<Rightarrow> 'a list \<Rightarrow> 'a list" where
  "filter_indexed f self =
     map fst (filter (\<lambda>(x, index). f x index self) (zip self [0..<length self]))"

definition uniqueGuides :: "user list \<Rightarrow> user list" where
  "uniqueGuides gs =
     filter_indexed
       (\<lambda>guide index self. int index = findIndex (\<lambda>g. user_id g = user_id guide) self) gs"

definition type_or_unknown :: "user \<Rightarrow> string" where
  "type_or_unknown u =
     (case user_type u of
        Undefined \<Rightarrow> ''unknown''
      | Null \<Rightarrow> ''unknown''
      | Str s \<Rightarrow> if s = [] then ''unknown'' else s)"

definition guides_matchesSearch :: "(string \<Rightarrow> string) \<Rightarrow> string \<Rightarrow> user \<Rightarrow> bool" where
  "guides_matchesSearch toLowerCase searchTerm u =
     (includes_lower toLowerCase (name u) searchTerm \<or>
      includes_lower toLowerCase (surname u) searchTerm \<or>
      includes_exact (phone u) searchTerm \<or>
      includes_lower toLowerCase (plate_number u) searchTerm \<or>
      includes_lower toLowerCase (car_model u) searchTerm)"

definition guides_matchesType :: "string \<Rightarrow> user \<Rightarrow> bool" where
  "guides_matchesType filterType u = (filterType = ''all'' \<or> type_or_unknown u = filterType)"

definition trips_filteredUsers ::
  "(string \<Rightarrow> string) \<Rightarrow> trip list \<Rightarrow> string \<Rightarrow> string \<Rightarrow> user list" where
  "trips_filteredUsers toLowerCase trips searchTerm filterType =
     filter (\<lambda>u. guides_matchesSearch toLowerCase searchTerm u \<and>
                  guides_matchesType filterType u)
       (uniqueGuides (guides trips))"

section \<open>Dates\<close>

text \<open>
  A \<open>Date\<close> is its time value, the milliseconds since the epoch. The environment's time
  zone is given by the two conversions of ECMAScript, \<open>LocalTime\<close> (from a time value to
  local time) and \<open>UTC\<close> (back). Parsing a date string (\<open>new Date(s)\<close>) is a parameter
  \<open>parse\<close> of the functions below, \<open>None\<close> being the invalid date, whose time value is NaN
  and which every comparison answers with false.
\<close>

record timezone =
  LocalTime :: "int \<Rightarrow> int"
  UTC :: "int \<Rightarrow> int"

definition msPerDay :: int where
  "msPerDay = 1000 * 60 * 60 * 24"

text \<open>
  \<open>getDate\<close> and \<open>setDate\<close> as ECMAScript defines them, on the local time: the day of the
  month is the day number less the day number of the first of the month, plus one, and
  \<open>setDate\<close> puts the time within the day on the day that \<open>MakeDay\<close> finds from the first
  of the month. \<open>month_start\<close> gives, for a day number, the day number of the first of its
  month.
\<close>

definition Day :: "int \<Rightarrow> int" where
  "Day t = t div msPerDay"

definition TimeWithinDay :: "int \<Rightarrow> int" where
  "TimeWithinDay t = t mod msPerDay"

definition getDate :: "timezone \<Rightarrow> (int \<Rightarrow> int) \<Rightarrow> int \<Rightarrow> int" where
  "getDate tz month_start t =
     (let lt = LocalTime tz t in Day lt - month_start (Day lt) + 1)"

definition setDate :: "timezone \<Rightarrow> (int \<Rightarrow> int) \<Rightarrow> int \<Rightarrow> int \<Rightarrow> int" where
  "setDate tz month_start t dt =
     (let lt = LocalTime tz t;
          newDate = (month_start (Day lt) + dt - 1) * msPerDay + TimeWithinDay lt
      in UTC tz newDate)"

text \<open>
  \<open>d.setDate(d.getDate() - 7)\<close>: the first of the month cancels, the local time moves back
  by seven days and is converted back to a time value (lemma \<open>setDate_getDate_minus_7\<close>
  below).
\<close>

definition setDate_minus_7 :: "timezone \<Rightarrow> int \<Rightarrow> int" where
  "setDate_minus_7 tz t = UTC tz (LocalTime tz t - 7 * msPerDay)"

text \<open>
  The callback of \<open>recentLogins\<close> on the dashboard page; \<open>now\<close> is the time value of
  \<open>new Date()\<close>.
\<close>

definition users_recentLogin :: "timezone \<Rightarrow> (string \<Rightarrow> int option) \<Rightarrow> int \<Rightarrow> user \<Rightarrow> bool" where
  "users_recentLogin tz parse now u =
     (case last_login_at u of
        None \<Rightarrow> False
      | Some s \<Rightarrow>
          if s = [] then False
          else
            (case parse s of
               None \<Rightarrow> False
             | Some loginDate \<Rightarrow>
                 (let weekAgo = setDate_minus_7 tz now in loginDate > weekAgo)))"

text \<open>The callback of \<open>recentLogins\<close> on the trips page.\<close>

definition guides_recentLogin :: "(string \<Rightarrow> int option) \<Rightarrow> int \<Rightarrow> user \<Rightarrow> bool" where
  "guides_recentLogin parse now g =
     (case last_login_at g of
        None \<Rightarrow> False
      | Some s \<Rightarrow>
          if s = [] then False
          else
            (case parse s of
               None \<Rightarrow> False
             | Some lastLogin \<Rightarrow>
                 (let diff = (of_int (now - lastLogin) :: rat) / of_int (1000 * 60 * 60 * 24)
                  in diff \<le> 7)))"

section \<open>Statistics\<close>

text \<open>
  A histogram object, created as \<open>{}\<close>, is the map from its own keys to their values. A
  value is a count or, under a name that every object inherits, a text: there the first
  read \<open>acc[k]\<close> gives the inherited function, which is truthy, and \<open>+ 1\<close> appends to its
  text, as it does to the text stored from then on. An assignment to \<open>__proto__\<close> of a
  text changes nothing.
\<close>

datatype tally = Count nat | Text

definition Object_prototype_keys :: "string list" where
  "Object_prototype_keys =
     [''constructor'', ''__defineGetter__'', ''__defineSetter__'', ''hasOwnProperty'',
      ''__lookupGetter__'', ''__lookupSetter__'', ''isPrototypeOf'', ''propertyIsEnumerable'',
      ''toString'', ''valueOf'', ''__proto__'', ''toLocaleString'']"

text \<open>\<open>acc[k] = (acc[k] || 0) + 1\<close>:\<close>

definition increment :: "(string \<rightharpoonup> tally) \<Rightarrow> string \<Rightarrow> (string \<rightharpoonup> tally)" where
  "increment acc k =
     (case acc k of
        Some (Count c) \<Rightarrow> acc(k \<mapsto> Count ((if c = 0 then 0 else c) + 1))
      | Some Text \<Rightarrow> acc(k \<mapsto> Text)
      | None \<Rightarrow>
          if k = ''__proto__'' then acc
          else if k \<in> set Object_prototype_keys then acc(k \<mapsto> Text)
          else acc(k \<mapsto> Count (0 + 1)))"

text \<open>The key that \<open>acc[user.type]\<close> reads and writes.\<close>

definition prop_key :: "opt_string \<Rightarrow> string" where
  "prop_key v = (case v of Undefined \<Rightarrow> ''undefined'' | Null \<Rightarrow> ''null'' | Str s \<Rightarrow> s)"

text \<open>
  The numbers of the percentages. A number is an IEEE double: a rational number, NaN or
  an infinity. A quotient and a product are the exact results rounded to the nearest
  number with a significand of 53 bits, a tie going to the even significand: this is the
  double arithmetic wherever the result lies in the range of the normal doubles, as the
  quotient of two array lengths and its product with 100 do.
\<close>

datatype jsnum = Num rat | NaN | PosInfinity | NegInfinity

definition round_half_even :: "rat \<Rightarrow> int" where
  "round_half_even x =
     (let f = \<lfloor>x\<rfloor>; d = x - of_int f in
      if d < 1 / 2 then f else if 1 / 2 < d then f + 1 else if even f then f else f + 1)"

text \<open>The exponent of a positive number: \<open>2 powi e \<le> x < 2 powi (e + 1)\<close>.\<close>

definition exponent :: "rat \<Rightarrow> int" where
  "exponent x =
     (let (a, b) = quotient_of x; e0 = bitlen a - bitlen b in
      if x < 2 powi e0 then e0 - 1 else e0)"

definition round_double :: "rat \<Rightarrow> rat" where
  "round_double x =
     (if x = 0 then 0
      else
        (let a = \<bar>x\<bar>; ulp = 2 powi (exponent a - 52)
         in sgn x * of_int (round_half_even (a / ulp)) * ulp))"

text \<open>\<open>x / y\<close> for finite \<open>x\<close> and \<open>y\<close>, where \<open>y\<close> is not the negative zero.\<close>

definition js_divide :: "rat \<Rightarrow> rat \<Rightarrow> jsnum" where
  "js_divide x y =
     (if y = 0 then (if x = 0 then NaN else if 0 < x then PosInfinity else NegInfinity)
      else Num (round_double (x / y)))"

text \<open>\<open>x * y\<close> for finite \<open>y\<close>.\<close>

definition js_times :: "jsnum \<Rightarrow> rat \<Rightarrow> jsnum" where
  "js_times x y =
     (case x of
        Num a \<Rightarrow> Num (round_double (a * y))
      | NaN \<Rightarrow> NaN
      | PosInfinity \<Rightarrow> (if y = 0 then NaN else if 0 < y then PosInfinity else NegInfinity)
      | NegInfinity \<Rightarrow> (if y = 0 then NaN else if 0 < y then NegInfinity else PosInfinity))"

record user_stats =
  totalUsers :: nat
  activeUsers :: nat
  onboardedUsers :: nat
  recentLogins :: nat
  userTypes :: "string \<rightharpoonup> tally"
  activePercentage :: jsnum
  onboardedPercentage :: jsnum

record trip_stats = user_stats +
  totalTrips :: nat
  finishedTrips :: nat
  cancelledTrips :: nat
  activeTrips :: nat
  totalGuides :: nat
  totalDrivers :: nat
  tripStatuses :: "string \<rightharpoonup> tally"
  totalAmount :: rat
  finishedPercentage :: jsnum
  cancelledPercentage :: jsnum

text \<open>\<open>stats\<close> of the dashboard page.\<close>

definition users_stats :: "timezone \<Rightarrow> (string \<Rightarrow> int option) \<Rightarrow> int \<Rightarrow> user list \<Rightarrow> user_stats" where
  "users_stats tz parse now users =
     (let total = length users;
          active = length (filter is_active users);
          onboarded = length (filter is_onboarded users);
          recent = length (filter (users_recentLogin tz parse now) users);
          types = fold (\<lambda>user acc. increment acc (prop_key (user_type user))) users Map.empty
      in \<lparr>totalUsers = total,
          activeUsers = active,
          onboardedUsers = onboarded,
          recentLogins = recent,
          userTypes = types,
          activePercentage =
            (if total > 0 then js_times (js_divide (of_nat active) (of_nat total)) 100
             else Num 0),
          onboardedPercentage =
            (if total > 0 then js_times (js_divide (of_nat onboarded) (of_nat total)) 100
             else Num 0)\<rparr>)"

text \<open>\<open>stats\<close> of the trips page.\<close>

definition count_status :: "trip \<Rightarrow> (string \<rightharpoonup> tally) \<Rightarrow> (string \<rightharpoonup> tally)" where
  "count_status t acc =
     (if is_finished t then increment acc ''finished''
      else if is_cancelled t then increment acc ''cancelled''
      else increment acc ''active'')"

definition trips_stats :: "(string \<Rightarrow> int option) \<Rightarrow> int \<Rightarrow> trip list \<Rightarrow> trip_stats" where
  "trips_stats parse now trips =
     (let total = length trips;
          finished = length (filter is_finished trips);
          cancelled = length (filter is_cancelled trips);
          active = length (filter (\<lambda>t. \<not> is_finished t \<and> \<not> is_cancelled t) trips);
          allGuides = set (map user_id (guides trips));
          allDrivers = set (map (\<lambda>d. user_id (the d)) (filter (\<lambda>d. d \<noteq> None) (map driver trips)));
          statuses = fold count_status trips Map.empty;
          amount =
            fold (\<lambda>t sum. round_double (sum + (case total_amount t of None \<Rightarrow> 0 | Some a \<Rightarrow> a)))
              trips 0;
          unique = uniqueGuides (guides trips);
          totalU = length unique;
          activeU = length (filter is_active unique);
          onboardedU = length (filter is_onboarded unique);
          recent = length (filter (guides_recentLogin parse now) unique);
          types = fold (\<lambda>g acc. increment acc (type_or_unknown g)) unique Map.empty
      in \<lparr>totalUsers = totalU,
          activeUsers = activeU,
          onboardedUsers = onboardedU,
          recentLogins = recent,
          userTypes = types,
          activePercentage =
            (if totalU > 0 then js_times (js_divide (of_nat activeU) (of_nat totalU)) 100
             else Num 0),
          onboardedPercentage =
            (if totalU > 0 then js_times (js_divide (of_nat onboardedU) (of_nat totalU)) 100
             else Num 0),
          totalTrips = total,
          finishedTrips = finished,
          cancelledTrips = cancelled,
          activeTrips = active,
          totalGuides = card allGuides,
          totalDrivers = card allDrivers,
          tripStatuses = statuses,
          totalAmount = amount,
          finishedPercentage =
            (if total > 0 then js_times (js_divide (of_nat finished) (of_nat total)) 100
             else Num 0),
          cancelledPercentage =
            (if total > 0 then js_times (js_divide (of_nat cancelled) (of_nat total)) 100
             else Num 0)\<rparr>)"

text \<open>The text of the status badge in the trips table and in the detail dialog.\<close>

definition status_label :: "trip \<Rightarrow> string" where
  "status_label t =
     (if is_finished t then ''Finished'' else if is_cancelled t then ''Cancelled'' else ''Active'')"

section \<open>Notions of the statements\<close>

text \<open>
  The order of the sorted user list: \<open>a\<close> may stand before \<open>b\<close> when its reward (0 when it
  has none) is higher, or the rewards are equal and \<open>b\<close> is onboarded only if \<open>a\<close> is.
\<close>

definition ranks_before :: "user \<Rightarrow> user \<Rightarrow> bool" where
  "ranks_before a b =
     (reward_or_0 b < reward_or_0 a \<or>
      (reward_or_0 a = reward_or_0 b \<and> (is_onboarded a \<or> \<not> is_onboarded b)))"

text \<open>
  What \<open>toLowerCase\<close> does on a string of ASCII characters: the letters A to Z are lowered
  one by one and every other character is kept. \<open>agrees_on_ascii\<close> says so of a function.
\<close>

definition ascii_lower_char :: "char \<Rightarrow> char" where
  "ascii_lower_char c =
     (case map_of (zip ''ABCDEFGHIJKLMNOPQRSTUVWXYZ'' ''abcdefghijklmnopqrstuvwxyz'') c of
        None \<Rightarrow> c
      | Some l \<Rightarrow> l)"

definition ascii_toLowerCase :: "string \<Rightarrow> string" where
  "ascii_toLowerCase s = map ascii_lower_char s"

definition is_ascii :: "string \<Rightarrow> bool" where
  "is_ascii s = list_all (\<lambda>c. \<not> digit7 c) s"

definition agrees_on_ascii :: "(string \<Rightarrow> string) \<Rightarrow> bool" where
  "agrees_on_ascii toLowerCase = (\<forall>s. is_ascii s \<longrightarrow> toLowerCase s = ascii_toLowerCase s)"

text \<open>
  A field contains the term once both are lowered, and as it is written. An absent field
  contains nothing.
\<close>

definition contains_lowered :: "(string \<Rightarrow> string) \<Rightarrow> string option \<Rightarrow> string \<Rightarrow> bool" where
  "contains_lowered toLowerCase f term =
     (case f of None \<Rightarrow> False | Some s \<Rightarrow> sublist (toLowerCase term) (toLowerCase s))"

definition contains_exactly :: "string option \<Rightarrow> string \<Rightarrow> bool" where
  "contains_exactly f term = (case f of None \<Rightarrow> False | Some s \<Rightarrow> sublist term s)"

text \<open>
  A field contains the term without regard to the case of the letters A to Z: it contains
  a string that differs from the term in the case of these letters at most.
\<close>

definition contains_ignoring_case :: "string option \<Rightarrow> string \<Rightarrow> bool" where
  "contains_ignoring_case f term =
     (case f of
        None \<Rightarrow> False
      | Some s \<Rightarrow> (\<exists>t\<in>set (sublists s). ascii_toLowerCase t = ascii_toLowerCase term))"

definition field_is_ascii :: "string option \<Rightarrow> bool" where
  "field_is_ascii f = (case f of None \<Rightarrow> True | Some s \<Rightarrow> is_ascii s)"

text \<open>The search match with every searched field compared without regard to case.\<close>

definition users_match_ignoring_case :: "string \<Rightarrow> user \<Rightarrow> bool" where
  "users_match_ignoring_case term u =
     (contains_ignoring_case (name u) term \<or>
      contains_ignoring_case (surname u) term \<or>
      contains_ignoring_case (phone u) term \<or>
      contains_ignoring_case (plate_number u) term)"

definition trips_match_ignoring_case :: "string \<Rightarrow> trip \<Rightarrow> bool" where
  "trips_match_ignoring_case term t =
     (contains_ignoring_case (opt_field (guide t) name) term \<or>
      contains_ignoring_case (opt_field (guide t) surname) term \<or>
      contains_ignoring_case (opt_field (driver t) name) term \<or>
      contains_ignoring_case (opt_field (driver t) surname) term \<or>
      contains_ignoring_case (opt_field (guide t) phone) term \<or>
      contains_ignoring_case (opt_field (driver t) phone) term \<or>
      contains_ignoring_case (code t) term \<or>
      contains_ignoring_case (opt_field (company t) company_name) term)"

text \<open>
  The search match with the phone fields compared as they are written: the other fields
  once lowered by \<open>toLowerCase\<close>, and, for ASCII strings, without regard to case.
\<close>

definition users_match :: "(string \<Rightarrow> string) \<Rightarrow> string \<Rightarrow> user \<Rightarrow> bool" where
  "users_match toLowerCase term u =
     (contains_lowered toLowerCase (name u) term \<or>
      contains_lowered toLowerCase (surname u) term \<or>
      contains_exactly (phone u) term \<or>
      contains_lowered toLowerCase (plate_number u) term)"

definition trips_match :: "(string \<Rightarrow> string) \<Rightarrow> string \<Rightarrow> trip \<Rightarrow> bool" where
  "trips_match toLowerCase term t =
     (contains_lowered toLowerCase (opt_field (guide t) name) term \<or>
      contains_lowered toLowerCase (opt_field (guide t) surname) term \<or>
      contains_lowered toLowerCase (opt_field (driver t) name) term \<or>
      contains_lowered toLowerCase (opt_field (driver t) surname) term \<or>
      contains_exactly (opt_field (guide t) phone) term \<or>
      contains_exactly (opt_field (driver t) phone) term \<or>
      contains_lowered toLowerCase (code t) term \<or>
      contains_lowered toLowerCase (opt_field (company t) company_name) term)"

definition users_match_ascii :: "string \<Rightarrow> user \<Rightarrow> bool" where
  "users_match_ascii term u =
     (contains_ignoring_case (name u) term \<or>
      contains_ignoring_case (surname u) term \<or>
      contains_exactly (phone u) term \<or>
      contains_ignoring_case (plate_number u) term)"

definition trips_match_ascii :: "string \<Rightarrow> trip \<Rightarrow> bool" where
  "trips_match_ascii term t =
     (contains_ignoring_case (opt_field (guide t) name) term \<or>
      contains_ignoring_case (opt_field (guide t) surname) term \<or>
      contains_ignoring_case (opt_field (driver t) name) term \<or>
      contains_ignoring_case (opt_field (driver t) surname) term \<or>
      contains_exactly (opt_field (guide t) phone) term \<or>
      contains_exactly (opt_field (driver t) phone) term \<or>
      contains_ignoring_case (code t) term \<or>
      contains_ignoring_case (opt_field (company t) company_name) term)"

text \<open>
  The searched fields of the record are ASCII strings; for a guide of the trips page they
  include the car model.
\<close>

definition guide_is_ascii :: "user \<Rightarrow> bool" where
  "guide_is_ascii u =
     (field_is_ascii (name u) \<and> field_is_ascii (surname u) \<and>
      field_is_ascii (plate_number u) \<and> field_is_ascii (car_model u))"

definition user_is_ascii :: "user \<Rightarrow> bool" where
  "user_is_ascii u =
     (field_is_ascii (name u) \<and> field_is_ascii (surname u) \<and> field_is_ascii (phone u) \<and>
      field_is_ascii (plate_number u))"

definition trip_is_ascii :: "trip \<Rightarrow> bool" where
  "trip_is_ascii t =
     (field_is_ascii (opt_field (guide t) name) \<and> field_is_ascii (opt_field (guide t) surname) \<and>
      field_is_ascii (opt_field (driver t) name) \<and>
      field_is_ascii (opt_field (driver t) surname) \<and>
      field_is_ascii (opt_field (guide t) phone) \<and> field_is_ascii (opt_field (driver t) phone) \<and>
      field_is_ascii (code t) \<and> field_is_ascii (opt_field (company t) company_name))"

text \<open>The record has one of the searched fields.\<close>

definition user_has_searched_field :: "user \<Rightarrow> bool" where
  "user_has_searched_field u =
     (name u \<noteq> None \<or> surname u \<noteq> None \<or> phone u \<noteq> None \<or> plate_number u \<noteq> None)"

definition trip_has_searched_field :: "trip \<Rightarrow> bool" where
  "trip_has_searched_field t =
     (opt_field (guide t) name \<noteq> None \<or> opt_field (guide t) surname \<noteq> None \<or>
      opt_field (driver t) name \<noteq> None \<or> opt_field (driver t) surname \<noteq> None \<or>
      opt_field (guide t) phone \<noteq> None \<or> opt_field (driver t) phone \<noteq> None \<or>
      code t \<noteq> None \<or> opt_field (company t) company_name \<noteq> None)"

text \<open>
  A value of the double arithmetic is \<open>x\<close> up to the rounding of a quotient and a product:
  it is a number, and it differs from \<open>x\<close> by no more than \<open>x\<close> over \<open>2 ^ 51\<close>.
\<close>

definition within_rounding :: "jsnum \<Rightarrow> rat \<Rightarrow> bool" where
  "within_rounding v x = (case v of Num p \<Rightarrow> \<bar>p - x\<bar> \<le> \<bar>x\<bar> / 2 ^ 51 | _ \<Rightarrow> False)"

text \<open>
  A percentage field holds the percentage of a count in a total: 0 when the total is 0,
  and otherwise what the double arithmetic gives for \<open>count / total * 100\<close>, which is that
  number up to rounding.
\<close>

definition percentage_of :: "jsnum \<Rightarrow> nat \<Rightarrow> nat \<Rightarrow> bool" where
  "percentage_of v cnt tot =
     (if tot = 0 then v = Num 0
      else v = js_times (js_divide (of_nat cnt) (of_nat tot)) 100 \<and>
           within_rounding v (of_nat cnt / of_nat tot * 100))"

text \<open>
  The count that a histogram holds under a key, 0 when the key is absent or holds no
  count.
\<close>

definition bucket :: "(string \<rightharpoonup> tally) \<Rightarrow> string \<Rightarrow> nat" where
  "bucket h k = (case h k of Some (Count c) \<Rightarrow> c | _ \<Rightarrow> 0)"

text \<open>A time zone whose local time is always \<open>c\<close> milliseconds ahead of UTC.\<close>

definition fixed_offset :: "int \<Rightarrow> timezone" where
  "fixed_offset c = \<lparr>LocalTime = (\<lambda>t. t + c), UTC = (\<lambda>l. l - c)\<rparr>"

text \<open>
  A zone that is one hour ahead of UTC until 2025-10-26T01:00:00Z (time value
  1761440400000) and on UTC from then on; a local time that occurs twice is read as the
  earlier one.
\<close>

definition clock_change_zone :: timezone where
  "clock_change_zone =
     \<lparr>LocalTime = (\<lambda>t. if t < 1761440400000 then t + 3600000 else t),
      UTC = (\<lambda>l. if l < 1761440400000 + 3600000 then l - 3600000 else l)\<rparr>"

section \<open>Sample records\<close>

text \<open>A user with the given id, name, reward and onboarding flag, and a trip led by a guide.\<close>

definition sample_user :: "int \<Rightarrow> string \<Rightarrow> rat option \<Rightarrow> bool \<Rightarrow> user" where
  "sample_user i n r ob =
     \<lparr>user_id = i, name = Some n, surname = None, user_type = Undefined, plate_number = None,
      car_model = None, is_active = True, is_onboarded = ob, last_login_at = None,
      phone = None, reward_amount = r\<rparr>"

definition sample_trip :: "user option \<Rightarrow> bool \<Rightarrow> bool \<Rightarrow> trip" where
  "sample_trip g fin can =
     \<lparr>code = Some ''T-1'', guide = g, driver = None, company = None, is_finished = fin,
      is_cancelled = can, total_amount = None\<rparr>"

section \<open>The fetch helper: results\<close>

lemma get_prop_message_cases:
  "(case get_prop j ''message'' of Inl e \<Rightarrow> d | Inr m \<Rightarrow> js_or m d) =
   (case carried_message j of Some m \<Rightarrow> m | None \<Rightarrow> d)"
  by (cases j) (auto simp: carried_message_def js_or_def split: option.splits)

lemma digit_char_cases:
  "d < 10 \<Longrightarrow> digit_char d \<in> set ''0123456789'' \<and> digit_value (digit_char d) = d \<and>
     (digit_char d = CHR ''0'') = (d = 0)"
proof -
  assume "d < 10"
  then have "d = 0 \<or> d = 1 \<or> d = 2 \<or> d = 3 \<or> d = 4 \<or> d = 5 \<or> d = 6 \<or> d = 7 \<or>
      d = 8 \<or> d = 9"
    by arith
  then show ?thesis
    by (elim disjE) (simp_all add: digit_char_def digit_value_def)
qed

lemma digit_char_in: "d < 10 \<Longrightarrow> digit_char d \<in> set ''0123456789''"
  using digit_char_cases [of d] by blast

lemma digit_value_digit_char: "d < 10 \<Longrightarrow> digit_value (digit_char d) = d"
  using digit_char_cases [of d] by blast

lemma digit_char_zero: "d < 10 \<Longrightarrow> (digit_char d = CHR ''0'') = (d = 0)"
  using digit_char_cases [of d] by blast

lemma decimal_value_snoc: "decimal_value (ds @ [c]) = 10 * decimal_value ds + digit_value c"
  by (simp add: decimal_value_def)

lemma decimal_value_show_nat: "decimal_value (show_nat n) = n"
proof (induction n rule: show_nat.induct)
  case (1 n)
  show ?case
  proof (cases "n < 10")
    case True
    then show ?thesis
      by (simp add: show_nat.simps [of n] decimal_value_def digit_value_digit_char)
  next
    case False
    with "1" have "decimal_value (show_nat (n div 10)) = n div 10" by simp
    with False show ?thesis
      by (simp add: show_nat.simps [of n] decimal_value_snoc digit_value_digit_char)
  qed
qed

lemma show_nat_digits: "show_nat n \<noteq> [] \<and> set (show_nat n) \<subseteq> set ''0123456789''"
proof (induction n rule: show_nat.induct)
  case (1 n)
  show ?case
  proof (cases "n < 10")
    case True
    then show ?thesis
      using digit_char_in [of n] by (simp add: show_nat.simps [of n])
  next
    case False
    with "1" have "set (show_nat (n div 10)) \<subseteq> set ''0123456789''" by simp
    with False show ?thesis
      using digit_char_in [of "n mod 10"] by (simp add: show_nat.simps [of n])
  qed
qed

lemma show_nat_hd: "0 < n \<Longrightarrow> hd (show_nat n) \<noteq> CHR ''0''"
proof (induction n rule: show_nat.induct)
  case (1 n)
  show ?case
  proof (cases "n < 10")
    case True
    then have "(digit_char n = CHR ''0'') = (n = 0)"
      by (rule digit_char_zero)
    with "1.prems" True show ?thesis by (simp add: show_nat.simps [of n])
  next
    case False
    then have "0 < n div 10" by simp
    with "1.IH" False have h: "hd (show_nat (n div 10)) \<noteq> CHR ''0''" by simp
    have "show_nat (n div 10) \<noteq> []" using show_nat_digits [of "n div 10"] by blast
    then have "hd (show_nat (n div 10) @ [digit_char (n mod 10)]) = hd (show_nat (n div 10))"
      by (rule hd_append2)
    with h False show ?thesis by (simp add: show_nat.simps [of n])
  qed
qed

lemma is_decimal_show_nat: "is_decimal (show_nat n)"
proof (cases "n = 0")
  case True
  then show ?thesis by (simp add: is_decimal_def show_nat.simps digit_char_def)
next
  case False
  then show ?thesis
    using show_nat_digits [of n] show_nat_hd [of n] by (simp add: is_decimal_def)
qed

text \<open>A number has one decimal writing, the one that \<open>show_nat\<close> gives.\<close>

lemma digit_cases:
  "c \<in> set ''0123456789'' \<Longrightarrow>
     digit_value c < 10 \<and> digit_char (digit_value c) = c \<and> (digit_value c = 0) = (c = CHR ''0'')"
proof -
  assume "c \<in> set ''0123456789''"
  then have "c = CHR ''0'' \<or> c = CHR ''1'' \<or> c = CHR ''2'' \<or> c = CHR ''3'' \<or> c = CHR ''4'' \<or>
      c = CHR ''5'' \<or> c = CHR ''6'' \<or> c = CHR ''7'' \<or> c = CHR ''8'' \<or> c = CHR ''9''"
    by simp
  then show ?thesis
    by (elim disjE) (simp_all add: digit_value_def digit_char_def)
qed

lemma digit_value_less: "c \<in> set ''0123456789'' \<Longrightarrow> digit_value c < 10"
  by (rule digit_cases [THEN conjunct1])

lemma digit_char_digit_value: "c \<in> set ''0123456789'' \<Longrightarrow> digit_char (digit_value c) = c"
  by (rule digit_cases [THEN conjunct2, THEN conjunct1])

lemma digit_value_zero: "c \<in> set ''0123456789'' \<Longrightarrow> (digit_value c = 0) = (c = CHR ''0'')"
  by (rule digit_cases [THEN conjunct2, THEN conjunct2])

lemma snoc_subset: "set (xs @ [c]) \<subseteq> D \<Longrightarrow> c \<in> D \<and> set xs \<subseteq> D"
  by simp

lemma hd_snoc: "xs \<noteq> [] \<Longrightarrow> hd (xs @ [c]) \<noteq> z \<or> xs @ [c] = [z] \<Longrightarrow> hd xs \<noteq> z"
  by (cases xs) auto

lemma decimal_value_pos:
  "ds \<noteq> [] \<Longrightarrow> set ds \<subseteq> D \<Longrightarrow> D = set ''0123456789'' \<Longrightarrow> hd ds \<noteq> CHR ''0'' \<Longrightarrow>
     0 < decimal_value ds"
proof (induction ds rule: rev_induct)
  case Nil
  then show ?case by simp
next
  case (snoc c xs)
  note sp = snoc_subset [OF snoc.prems(2)]
  note c = sp [THEN conjunct1] and xs = sp [THEN conjunct2]
  show ?case
  proof (cases "xs = []")
    case True
    with snoc.prems(4) have nz: "c \<noteq> CHR ''0''" by simp
    from c snoc.prems(3) have cd: "c \<in> set ''0123456789''" by (simp only:)
    from nz have "digit_value c \<noteq> 0" unfolding digit_value_zero [OF cd] .
    with True show ?thesis by (simp add: decimal_value_def)
  next
    case False
    with snoc.prems(4) have "hd xs \<noteq> CHR ''0''" by simp
    with False xs snoc.prems(3) have "0 < decimal_value xs" by (intro snoc.IH)
    then show ?thesis by (simp add: decimal_value_snoc)
  qed
qed

lemma is_decimal_parts:
  "is_decimal ds \<Longrightarrow> ds \<noteq> [] \<and> set ds \<subseteq> set ''0123456789'' \<and> (hd ds \<noteq> CHR ''0'' \<or> ds = [CHR ''0''])"
  unfolding is_decimal_def .

lemma show_nat_decimal_value: "is_decimal ds \<Longrightarrow> show_nat (decimal_value ds) = ds"
proof (induction ds rule: rev_induct)
  case Nil
  then show ?case by (simp add: is_decimal_def)
next
  case (snoc c xs)
  note p = is_decimal_parts [OF snoc.prems]
  note sp = snoc_subset [OF p [THEN conjunct2, THEN conjunct1]]
  note c = sp [THEN conjunct1] and xs = sp [THEN conjunct2]
  have d: "digit_value c < 10" using c by (rule digit_value_less)
  have dc: "digit_char (digit_value c) = c" using c by (rule digit_char_digit_value)
  show ?case
  proof (cases "xs = []")
    case True
    have "show_nat (digit_value c) = [digit_char (digit_value c)]"
      using d by (subst show_nat.simps) simp
    with True dc show ?thesis by (simp add: decimal_value_def)
  next
    case False
    from hd_snoc [OF False p [THEN conjunct2, THEN conjunct2]] have h: "hd xs \<noteq> CHR ''0''" .
    have dec: "is_decimal xs"
      unfolding is_decimal_def by (intro conjI disjI1) (rule False xs h)+
    from False xs refl h have pos: "0 < decimal_value xs" by (rule decimal_value_pos)
    define n where "n = 10 * decimal_value xs + digit_value c"
    have n: "\<not> n < 10" "n div 10 = decimal_value xs" "n mod 10 = digit_value c"
      using pos d by (simp_all add: n_def)
    have "show_nat n = show_nat (n div 10) @ [digit_char (n mod 10)]"
      using n(1) by (subst show_nat.simps) simp
    also have "\<dots> = xs @ [c]"
      unfolding n(2,3) dc snoc.IH [OF dec] ..
    finally show ?thesis by (simp add: decimal_value_snoc n_def)
  qed
qed

lemma decimal_unique:
  assumes "is_decimal a" "is_decimal b" "decimal_value a = decimal_value b"
  shows "a = b"
proof -
  have "a = show_nat (decimal_value a)"
    using assms(1) by (rule show_nat_decimal_value [symmetric])
  also have "\<dots> = show_nat (decimal_value b)" by (simp only: assms(3))
  also have "\<dots> = b" using assms(2) by (rule show_nat_decimal_value)
  finally show ?thesis .
qed

text \<open>
  C1. On every response whose status is not 2xx, \<open>httpGet\<close> returns no value: it throws
  \<open>Error\<close>, with the \<open>message\<close> of the body when the body parses as JSON and carries one,
  and otherwise with the text \<open>HTTP error! status: \<close> followed by the status code written
  in decimal, which is one string only (lemma \<open>decimal_unique\<close>).
\<close>

theorem httpGet_non_2xx_throws:
  "\<not> (200 \<le> status res \<and> status res \<le> 299) \<Longrightarrow>
     httpGet res =
       Inl (Error
         (case body res of
            None \<Rightarrow> JStr (''HTTP error! status: '' @ show_nat (status res))
          | Some j \<Rightarrow>
              (case carried_message j of
                 Some m \<Rightarrow> m
               | None \<Rightarrow> JStr (''HTTP error! status: '' @ show_nat (status res))))) \<and>
     is_decimal (show_nat (status res)) \<and>
     decimal_value (show_nat (status res)) = status res \<and>
     (\<forall>v. httpGet res \<noteq> Inr v)"
  by (simp add: httpGet_def ok_def json_def http_error_text_def get_prop_message_cases
      is_decimal_show_nat decimal_value_show_nat split: option.splits)

theorem httpGet_non_2xx_throws_witness:
  "\<not> (200 \<le> (404::nat) \<and> (404::nat) \<le> 299) \<and>
   httpGet \<lparr>status = 404, body = Some (JObj [(''message'', JStr ''not found'')])\<rparr>
     = Inl (Error (JStr ''not found'')) \<and>
   httpGet \<lparr>status = 500, body = None\<rparr> = Inl (Error (JStr ''HTTP error! status: 500''))"
  using httpGet_non_2xx_throws [of "\<lparr>status = 404, body = Some (JObj [(''message'', JStr ''not found'')])\<rparr>"]
        httpGet_non_2xx_throws [of "\<lparr>status = 500, body = None\<rparr>"]
  by (simp add: carried_message_def show_nat.simps digit_char_def)

text \<open>
  C2. On every 2xx response whose body parses as an envelope, an object with a string
  \<open>message\<close> and a \<open>data\<close> property (which may be \<open>null\<close>), \<open>httpGet\<close> returns the value of
  \<open>data\<close> and nothing of \<open>message\<close>.
\<close>

theorem httpGet_2xx_unwraps:
  "200 \<le> status res \<and> status res \<le> 299 \<Longrightarrow>
   body res = Some (JObj kvs) \<Longrightarrow>
   map_of kvs ''message'' = Some (JStr m) \<Longrightarrow>
   map_of kvs ''data'' = Some d \<Longrightarrow>
     httpGet res = Inr d"
  by (simp add: httpGet_def ok_def json_def)

theorem httpGet_2xx_unwraps_witness:
  "httpGet \<lparr>status = 200, body = Some (JObj [(''message'', JStr ''ok''),
       (''data'', JArr [JObj [(''id'', JNum 1)]])])\<rparr> = Inr (JArr [JObj [(''id'', JNum 1)]]) \<and>
   httpGet \<lparr>status = 201, body = Some (JObj [(''message'', JStr ''none''),
       (''data'', JNull)])\<rparr> = Inr JNull"
  using httpGet_2xx_unwraps [of "\<lparr>status = 200, body = Some (JObj [(''message'', JStr ''ok''),
       (''data'', JArr [JObj [(''id'', JNum 1)]])])\<rparr>"
       "[(''message'', JStr ''ok''), (''data'', JArr [JObj [(''id'', JNum 1)]])]" "''ok''"
       "JArr [JObj [(''id'', JNum 1)]]"]
     httpGet_2xx_unwraps [of "\<lparr>status = 201, body = Some (JObj [(''message'', JStr ''none''),
       (''data'', JNull)])\<rparr>" "[(''message'', JStr ''none''), (''data'', JNull)]" "''none''" JNull]
  by simp

section \<open>Deduplication of guides\<close>

lemma findIndex_from_range: "findIndex_from p k xs = - 1 \<or> int k \<le> findIndex_from p k xs"
proof (induction xs arbitrary: k)
  case Nil
  then show ?case by simp
next
  case (Cons x xs)
  from Cons [of "Suc k"] show ?case by auto
qed

lemma findIndex_from_eq:
  "i < length xs \<Longrightarrow>
     (findIndex_from p k xs = int (k + i)) = (p (xs ! i) \<and> (\<forall>j<i. \<not> p (xs ! j)))"
proof (induction xs arbitrary: k i)
  case Nil
  then show ?case by simp
next
  case (Cons x xs)
  show ?case
  proof (cases i)
    case 0
    then show ?thesis
      using findIndex_from_range [of p "Suc k" xs] by auto
  next
    case (Suc i')
    with Cons.prems have "i' < length xs" by simp
    from Cons.IH [OF this, of "Suc k"] Suc show ?thesis
      by (auto simp: less_Suc_eq_0_disj)
  qed
qed

lemma findIndex_eq:
  "i < length xs \<Longrightarrow> (int i = findIndex p xs) = (p (xs ! i) \<and> (\<forall>j<i. \<not> p (xs ! j)))"
  using findIndex_from_eq [of i xs p 0] by (auto simp: findIndex_def)

lemma filter_indexed_nths: "filter_indexed f xs = nths xs {i. f (xs ! i) i xs}"
proof -
  have "filter (\<lambda>(x, index). f x index xs) (zip xs [0..<length xs]) =
        filter (\<lambda>p. snd p \<in> {i. f (xs ! i) i xs}) (zip xs [0..<length xs])"
    by (rule filter_cong) (auto simp: set_zip)
  then show ?thesis by (simp add: filter_indexed_def nths_def)
qed

lemma nths_cong_length:
  "(\<And>i. i < length xs \<Longrightarrow> (i \<in> A) = (i \<in> B)) \<Longrightarrow> nths xs A = nths xs B"
  unfolding nths_def
  by (rule arg_cong [where f = "map fst"], rule filter_cong) (auto simp: set_zip)

lemma uniqueGuides_nths:
  "uniqueGuides gs = nths gs {i. \<forall>j<i. user_id (gs ! j) \<noteq> user_id (gs ! i)}"
  unfolding uniqueGuides_def filter_indexed_nths
  by (rule nths_cong_length) (simp add: findIndex_eq)

lemma uniqueGuides_snoc:
  "uniqueGuides (gs @ [g]) =
     (if user_id g \<in> user_id ` set gs then uniqueGuides gs else uniqueGuides gs @ [g])"
proof -
  have a: "nths gs {i. \<forall>j<i. user_id ((gs @ [g]) ! j) \<noteq> user_id ((gs @ [g]) ! i)} =
        nths gs {i. \<forall>j<i. user_id (gs ! j) \<noteq> user_id (gs ! i)}"
    by (rule nths_cong_length) (simp add: nth_append)
  have b: "(\<forall>j<length gs. user_id ((gs @ [g]) ! j) \<noteq> user_id g) = (user_id g \<notin> user_id ` set gs)"
    by (auto simp: nth_append in_set_conv_nth image_iff) (metis nth_mem)
  show ?thesis
    unfolding uniqueGuides_nths nths_append a using b by simp
qed

lemma uniqueGuides_Nil: "uniqueGuides [] = []"
  by (simp add: uniqueGuides_nths)

lemma uniqueGuides_ids: "user_id ` set (uniqueGuides gs) = user_id ` set gs"
  by (induction gs rule: rev_induct) (auto simp: uniqueGuides_snoc uniqueGuides_Nil)

lemma uniqueGuides_distinct: "distinct (map user_id (uniqueGuides gs))"
  by (induction gs rule: rev_induct)
    (auto simp: uniqueGuides_snoc uniqueGuides_Nil uniqueGuides_ids)

lemma uniqueGuides_of_distinct: "distinct (map user_id gs) \<Longrightarrow> uniqueGuides gs = gs"
  by (induction gs rule: rev_induct) (auto simp: uniqueGuides_snoc uniqueGuides_Nil)

text \<open>
  C5. The deduplication of the guides of a trip list is by \<open>id\<close> and the first occurrence
  wins: the element at a position is kept exactly when no earlier position holds the same
  id, so every id is kept once, at its earliest position. It is idempotent, and a list
  whose ids are already distinct comes back unchanged.
\<close>

theorem uniqueGuides_first_wins_idempotent:
  "uniqueGuides gs = nths gs {i. \<forall>j<i. user_id (gs ! j) \<noteq> user_id (gs ! i)} \<and>
   distinct (map user_id (uniqueGuides gs)) \<and>
   user_id ` set (uniqueGuides gs) = user_id ` set gs \<and>
   uniqueGuides (uniqueGuides gs) = uniqueGuides gs \<and>
   (distinct (map user_id gs) \<longrightarrow> uniqueGuides gs = gs)"
proof -
  have "uniqueGuides (uniqueGuides gs) = uniqueGuides gs"
    by (rule uniqueGuides_of_distinct) (rule uniqueGuides_distinct)
  then show ?thesis
    using uniqueGuides_nths [of gs] uniqueGuides_distinct [of gs] uniqueGuides_ids [of gs]
      uniqueGuides_of_distinct [of gs]
    by blast
qed

theorem uniqueGuides_first_wins_idempotent_witness:
  "distinct (map user_id [sample_user 1 ''Bat'' None True, sample_user 2 ''Saraa'' None True]) \<and>
   uniqueGuides [sample_user 1 ''Bat'' None True, sample_user 2 ''Saraa'' None True] =
     [sample_user 1 ''Bat'' None True, sample_user 2 ''Saraa'' None True] \<and>
   uniqueGuides (guides
     [sample_trip (Some (sample_user 1 ''Bat'' None True)) False False,
      sample_trip None False False,
      sample_trip (Some (sample_user 2 ''Saraa'' None True)) True False,
      sample_trip (Some (sample_user 1 ''Bat-Erdene'' None False)) False False]) =
     [sample_user 1 ''Bat'' None True, sample_user 2 ''Saraa'' None True]"
proof -
  have d: "distinct (map user_id [sample_user 1 ''Bat'' None True, sample_user 2 ''Saraa'' None True])"
    by (simp add: sample_user_def)
  have g: "guides
     [sample_trip (Some (sample_user 1 ''Bat'' None True)) False False,
      sample_trip None False False,
      sample_trip (Some (sample_user 2 ''Saraa'' None True)) True False,
      sample_trip (Some (sample_user 1 ''Bat-Erdene'' None False)) False False] =
     [sample_user 1 ''Bat'' None True, sample_user 2 ''Saraa'' None True] @
     [sample_user 1 ''Bat-Erdene'' None False]"
    by (simp add: guides_def sample_trip_def)
  have u: "uniqueGuides [sample_user 1 ''Bat'' None True, sample_user 2 ''Saraa'' None True] =
     [sample_user 1 ''Bat'' None True, sample_user 2 ''Saraa'' None True]"
    using uniqueGuides_first_wins_idempotent
      [of "[sample_user 1 ''Bat'' None True, sample_user 2 ''Saraa'' None True]"] d
    by blast
  have "uniqueGuides ([sample_user 1 ''Bat'' None True, sample_user 2 ''Saraa'' None True] @
     [sample_user 1 ''Bat-Erdene'' None False]) =
     [sample_user 1 ''Bat'' None True, sample_user 2 ''Saraa'' None True]"
    unfolding uniqueGuides_snoc u by (simp add: sample_user_def)
  with d g u show ?thesis by simp
qed

section \<open>The sorted user list of the dashboard page\<close>

lemma compare_users_le: "(compare_users a b \<le> 0) = ranks_before a b"
  by (auto simp: compare_users_def ranks_before_def Let_def)

lemma ranks_before_total: "ranks_before a b \<or> ranks_before b a"
  by (auto simp: ranks_before_def)

lemma ranks_before_trans: "ranks_before a b \<Longrightarrow> ranks_before b c \<Longrightarrow> ranks_before a c"
  by (auto simp: ranks_before_def)

lemma set_insert_sorted: "set (insert_sorted cmp x ys) = insert x (set ys)"
  by (induction ys) auto

lemma sorted_insert_sorted:
  "sorted_wrt ranks_before ys \<Longrightarrow> sorted_wrt ranks_before (insert_sorted compare_users x ys)"
proof (induction ys)
  case Nil
  then show ?case by simp
next
  case (Cons y ys)
  show ?case
  proof (cases "compare_users x y \<le> 0")
    case True
    then have xy: "ranks_before x y" by (simp add: compare_users_le)
    with Cons.prems have "\<forall>z\<in>set ys. ranks_before x z"
      using ranks_before_trans by auto
    with True xy Cons.prems show ?thesis by simp
  next
    case False
    then have "ranks_before y x"
      using ranks_before_total [of x y] by (simp add: compare_users_le)
    with False Cons show ?thesis by (simp add: set_insert_sorted)
  qed
qed

lemma filter_insert_sorted:
  "filter (\<lambda>u. reward_or_0 u = r \<and> is_onboarded u = ob) (insert_sorted compare_users x ys) =
   (if reward_or_0 x = r \<and> is_onboarded x = ob
    then x # filter (\<lambda>u. reward_or_0 u = r \<and> is_onboarded u = ob) ys
    else filter (\<lambda>u. reward_or_0 u = r \<and> is_onboarded u = ob) ys)"
  by (induction ys) (auto simp: compare_users_def Let_def)

lemma count_insert_sorted: "count_list (insert_sorted cmp x ys) u = count_list (x # ys) u"
  by (induction ys) auto

lemma set_js_sort: "set (js_sort cmp xs) = set xs"
  by (induction xs) (auto simp: js_sort_def set_insert_sorted)

lemma count_js_sort: "count_list (js_sort cmp xs) u = count_list xs u"
  by (induction xs) (auto simp: js_sort_def count_insert_sorted)

lemma sorted_js_sort: "sorted_wrt ranks_before (js_sort compare_users xs)"
  by (induction xs) (auto simp: js_sort_def sorted_insert_sorted)

lemma stable_js_sort:
  "filter (\<lambda>u. reward_or_0 u = r \<and> is_onboarded u = ob) (js_sort compare_users xs) =
   filter (\<lambda>u. reward_or_0 u = r \<and> is_onboarded u = ob) xs"
  by (induction xs) (auto simp: js_sort_def filter_insert_sorted)

lemma ranks_before_both:
  "ranks_before a b \<Longrightarrow> ranks_before b a \<Longrightarrow>
     reward_or_0 a = reward_or_0 b \<and> is_onboarded a = is_onboarded b"
  by (auto simp: ranks_before_def)

lemma head_in_other:
  assumes "filter p (y # ys) = filter p (z # zs)" "p y" "\<not> p z"
  shows "y \<in> set zs"
proof -
  have "y \<in> set (filter p (y # ys))" using assms(2) by simp
  then have "y \<in> set (filter p (z # zs))" by (simp only: assms(1))
  with assms(3) show ?thesis by simp
qed

text \<open>
  There is one arrangement only that is sorted and keeps the order within every class of
  equal reward and equal onboarding: whatever algorithm the engine's \<open>sort\<close> runs, a
  stable sort with this comparator returns the list that \<open>js_sort\<close> computes.
\<close>

lemma sorted_stable_unique:
  "sorted_wrt ranks_before ys \<Longrightarrow> sorted_wrt ranks_before zs \<Longrightarrow>
   (\<And>r ob. filter (\<lambda>u. reward_or_0 u = r \<and> is_onboarded u = ob) ys =
            filter (\<lambda>u. reward_or_0 u = r \<and> is_onboarded u = ob) zs) \<Longrightarrow>
   ys = zs"
proof (induction ys arbitrary: zs)
  case Nil
  show ?case
  proof (cases zs)
    case Nil
    then show ?thesis by simp
  next
    case (Cons z zs')
    with Nil.prems(3) [of "reward_or_0 z" "is_onboarded z"] show ?thesis by simp
  qed
next
  case (Cons y ys)
  obtain z zs' where zs: "zs = z # zs'"
    using Cons.prems(3) [of "reward_or_0 y" "is_onboarded y"] by (cases zs) simp_all
  note eq = Cons.prems(3) [unfolded zs]
  have same_key: "reward_or_0 y = reward_or_0 z \<and> is_onboarded y = is_onboarded z"
  proof (rule ccontr)
    assume neq: "\<not> ?thesis"
    have "y \<in> set zs'"
      by (rule head_in_other [OF eq [of "reward_or_0 y" "is_onboarded y"]]) (use neq in auto)
    with Cons.prems(2) zs have zy: "ranks_before z y" by simp
    have "z \<in> set ys"
      by (rule head_in_other [OF eq [of "reward_or_0 z" "is_onboarded z", symmetric]])
        (use neq in auto)
    with Cons.prems(1) have "ranks_before y z" by simp
    with zy neq show False using ranks_before_both by blast
  qed
  have yz: "y = z"
    using eq [of "reward_or_0 y" "is_onboarded y"] same_key by simp
  have "ys = zs'"
  proof (rule Cons.IH)
    show "sorted_wrt ranks_before ys" using Cons.prems(1) by simp
    show "sorted_wrt ranks_before zs'" using Cons.prems(2) zs by simp
    show "filter (\<lambda>u. reward_or_0 u = r \<and> is_onboarded u = ob) ys =
          filter (\<lambda>u. reward_or_0 u = r \<and> is_onboarded u = ob) zs'" for r ob
      using eq [of r ob] yz by (simp split: if_splits)
  qed
  with yz zs show ?case by simp
qed

lemma js_sort_unique:
  "sorted_wrt ranks_before ys \<Longrightarrow>
   (\<And>r ob. filter (\<lambda>u. reward_or_0 u = r \<and> is_onboarded u = ob) ys =
            filter (\<lambda>u. reward_or_0 u = r \<and> is_onboarded u = ob) xs) \<Longrightarrow>
   ys = js_sort compare_users xs"
  by (rule sorted_stable_unique) (simp_all add: sorted_js_sort stable_js_sort)

text \<open>
  C4, as the code has it. The user list of the dashboard page is the matching users in
  descending order of \<open>reward_amount\<close>, an absent reward counting as 0, users of equal
  reward with the onboarded ones first, and users of equal reward and equal onboarding in
  the order of the input; no user is lost or added by the sort. The user list derived on
  the trips page is not sorted.
\<close>

theorem filteredUsers_sorted_stable:
  "sorted_wrt ranks_before (filteredUsers toLowerCase users searchTerm filterType) \<and>
   (\<forall>u. count_list (filteredUsers toLowerCase users searchTerm filterType) u =
        count_list (filter (\<lambda>u. users_matchesSearch toLowerCase searchTerm u \<and>
                                 users_matchesType filterType u) users) u) \<and>
   (\<forall>r ob. filter (\<lambda>u. reward_or_0 u = r \<and> is_onboarded u = ob)
             (filteredUsers toLowerCase users searchTerm filterType) =
           filter (\<lambda>u. reward_or_0 u = r \<and> is_onboarded u = ob)
             (filter (\<lambda>u. users_matchesSearch toLowerCase searchTerm u \<and>
                           users_matchesType filterType u) users))"
  unfolding filteredUsers_def
  by (simp add: sorted_js_sort count_js_sort stable_js_sort)

theorem filteredUsers_sorted_stable_witness:
  "filteredUsers ascii_toLowerCase
     [sample_user 1 ''A'' (Some 5) False, sample_user 2 ''B'' (Some 5) True,
      sample_user 3 ''C'' (Some 10) False] '''' ''all'' =
     [sample_user 3 ''C'' (Some 10) False, sample_user 2 ''B'' (Some 5) True,
      sample_user 1 ''A'' (Some 5) False] \<and>
   sorted_wrt ranks_before
     [sample_user 3 ''C'' (Some 10) False, sample_user 2 ''B'' (Some 5) True,
      sample_user 1 ''A'' (Some 5) False] \<and>
   filteredUsers ascii_toLowerCase
     [sample_user 1 ''A'' None True, sample_user 2 ''B'' (Some 0) True,
      sample_user 3 ''C'' (Some (- 2)) True] '''' ''all'' =
     [sample_user 1 ''A'' None True, sample_user 2 ''B'' (Some 0) True,
      sample_user 3 ''C'' (Some (- 2)) True]"
proof -
  have a: "filteredUsers ascii_toLowerCase
     [sample_user 1 ''A'' (Some 5) False, sample_user 2 ''B'' (Some 5) True,
      sample_user 3 ''C'' (Some 10) False] '''' ''all'' =
     [sample_user 3 ''C'' (Some 10) False, sample_user 2 ''B'' (Some 5) True,
      sample_user 1 ''A'' (Some 5) False]"
    by (simp add: filteredUsers_def js_sort_def users_matchesSearch_def users_matchesType_def
        includes_lower_def includes_exact_def ascii_toLowerCase_def sample_user_def compare_users_def
        reward_or_0_def)
  have b: "filteredUsers ascii_toLowerCase
     [sample_user 1 ''A'' None True, sample_user 2 ''B'' (Some 0) True,
      sample_user 3 ''C'' (Some (- 2)) True] '''' ''all'' =
     [sample_user 1 ''A'' None True, sample_user 2 ''B'' (Some 0) True,
      sample_user 3 ''C'' (Some (- 2)) True]"
    by (simp add: filteredUsers_def js_sort_def users_matchesSearch_def users_matchesType_def
        includes_lower_def includes_exact_def ascii_toLowerCase_def sample_user_def compare_users_def
        reward_or_0_def)
  from filteredUsers_sorted_stable
    [of ascii_toLowerCase "[sample_user 1 ''A'' (Some 5) False, sample_user 2 ''B'' (Some 5) True,
      sample_user 3 ''C'' (Some 10) False]" "''''" "''all''"]
  have "sorted_wrt ranks_before
     [sample_user 3 ''C'' (Some 10) False, sample_user 2 ''B'' (Some 5) True,
      sample_user 1 ''A'' (Some 5) False]"
    unfolding a by blast
  with a b show ?thesis by blast
qed

text \<open>
  On the trips page the three users of the example, as the guides of three trips, come out
  in the order of the trips, which is not the sorted order. The strings are ASCII, on which
  every \<open>toLowerCase\<close> that agrees with the language's gives the same list (lemma
  \<open>trips_filteredUsers_ascii\<close> below).
\<close>

theorem trips_filteredUsers_not_sorted:
  "trips_filteredUsers ascii_toLowerCase
     [sample_trip (Some (sample_user 1 ''A'' (Some 5) False)) False False,
      sample_trip (Some (sample_user 2 ''B'' (Some 5) True)) False False,
      sample_trip (Some (sample_user 3 ''C'' (Some 10) False)) False False] '''' ''all'' =
     [sample_user 1 ''A'' (Some 5) False, sample_user 2 ''B'' (Some 5) True,
      sample_user 3 ''C'' (Some 10) False] \<and>
   \<not> sorted_wrt ranks_before
     (trips_filteredUsers ascii_toLowerCase
       [sample_trip (Some (sample_user 1 ''A'' (Some 5) False)) False False,
        sample_trip (Some (sample_user 2 ''B'' (Some 5) True)) False False,
        sample_trip (Some (sample_user 3 ''C'' (Some 10) False)) False False] '''' ''all'')"
proof -
  have a: "trips_filteredUsers ascii_toLowerCase
     [sample_trip (Some (sample_user 1 ''A'' (Some 5) False)) False False,
      sample_trip (Some (sample_user 2 ''B'' (Some 5) True)) False False,
      sample_trip (Some (sample_user 3 ''C'' (Some 10) False)) False False] '''' ''all'' =
     [sample_user 1 ''A'' (Some 5) False, sample_user 2 ''B'' (Some 5) True,
      sample_user 3 ''C'' (Some 10) False]"
    by (simp add: trips_filteredUsers_def guides_def sample_trip_def uniqueGuides_def
        filter_indexed_def findIndex_def guides_matchesSearch_def guides_matchesType_def
        includes_lower_def includes_exact_def ascii_toLowerCase_def sample_user_def)
  have "\<not> sorted_wrt ranks_before
     [sample_user 1 ''A'' (Some 5) False, sample_user 2 ''B'' (Some 5) True,
      sample_user 3 ''C'' (Some 10) False]"
    by (simp add: ranks_before_def reward_or_0_def sample_user_def)
  with a show ?thesis by simp
qed

section \<open>The search filter\<close>

lemma js_includes_sublist: "js_includes s t = sublist t s"
  by (induction s) (auto simp: sublist_Cons_right)

lemma includes_lower_eq: "includes_lower toLowerCase f t = contains_lowered toLowerCase f t"
  by (simp add: includes_lower_def contains_lowered_def js_includes_sublist
      split: option.splits)

lemma includes_exact_eq: "includes_exact f t = contains_exactly f t"
  by (simp add: includes_exact_def contains_exactly_def js_includes_sublist
      split: option.splits)

lemma users_matchesSearch_eq: "users_matchesSearch toLowerCase t u = users_match toLowerCase t u"
  by (simp add: users_matchesSearch_def users_match_def includes_lower_eq includes_exact_eq)

lemma trips_matchesSearch_eq: "trips_matchesSearch toLowerCase s t = trips_match toLowerCase s t"
  by (simp add: trips_matchesSearch_def trips_match_def includes_lower_eq includes_exact_eq)

lemma filteredUsers_all:
  "filteredUsers toLowerCase users term ''all'' =
     js_sort compare_users (filter (users_match toLowerCase term) users)"
  by (simp add: filteredUsers_def users_matchesType_def users_matchesSearch_eq)

lemma filteredTrips_all:
  "filteredTrips toLowerCase trips term ''all'' = filter (trips_match toLowerCase term) trips"
  by (simp add: filteredTrips_def trips_matchesType_def trips_matchesSearch_eq)

lemma filteredUsers_no_match:
  "\<forall>u\<in>set users. \<not> users_match toLowerCase term u \<Longrightarrow>
     filteredUsers toLowerCase users term filterType = []"
proof -
  assume "\<forall>u\<in>set users. \<not> users_match toLowerCase term u"
  then have "filter (\<lambda>u. users_matchesSearch toLowerCase term u \<and>
      users_matchesType filterType u) users = []"
    by (simp add: filter_empty_conv users_matchesSearch_eq)
  then show ?thesis by (simp add: filteredUsers_def js_sort_def)
qed

lemma filteredTrips_no_match:
  "\<forall>t\<in>set trips. \<not> trips_match toLowerCase term t \<Longrightarrow>
     filteredTrips toLowerCase trips term filterType = []"
  by (simp add: filteredTrips_def filter_empty_conv trips_matchesSearch_eq)

text \<open>On ASCII strings the lowered comparison is the comparison without regard to case.\<close>

lemma sublist_map_iff:
  "sublist (map f t) (map f s) = (\<exists>t'. sublist t' s \<and> map f t' = map f t)"
proof
  assume "sublist (map f t) (map f s)"
  then obtain ps ss where "map f s = ps @ map f t @ ss"
    by (auto simp: sublist_def)
  then obtain p r where s: "s = p @ r" and r: "map f t @ ss = map f r"
    unfolding map_eq_append_conv by blast
  from r obtain t' q where "r = t' @ q" "map f t = map f t'"
    unfolding append_eq_map_conv by blast
  with s have "sublist t' s" "map f t' = map f t"
    by (auto simp: sublist_def)
  then show "\<exists>t'. sublist t' s \<and> map f t' = map f t" by blast
next
  assume "\<exists>t'. sublist t' s \<and> map f t' = map f t"
  then obtain t' where "sublist t' s" "map f t' = map f t" by blast
  then show "sublist (map f t) (map f s)"
    using map_mono_sublist [of t' s f] by simp
qed

lemma contains_ignoring_case_sublist:
  "contains_ignoring_case f term =
     (case f of
        None \<Rightarrow> False
      | Some s \<Rightarrow> sublist (ascii_toLowerCase term) (ascii_toLowerCase s))"
  by (auto simp: contains_ignoring_case_def ascii_toLowerCase_def sublist_map_iff
      split: option.splits)

lemma contains_lowered_ascii:
  "agrees_on_ascii toLowerCase \<Longrightarrow> is_ascii term \<Longrightarrow> field_is_ascii f \<Longrightarrow>
     contains_lowered toLowerCase f term = contains_ignoring_case f term"
  by (simp add: contains_ignoring_case_sublist contains_lowered_def agrees_on_ascii_def
      field_is_ascii_def split: option.splits)

lemma users_match_ascii_eq:
  "agrees_on_ascii toLowerCase \<Longrightarrow> is_ascii term \<Longrightarrow> user_is_ascii u \<Longrightarrow>
     users_match toLowerCase term u = users_match_ascii term u"
  by (simp add: users_match_def users_match_ascii_def user_is_ascii_def contains_lowered_ascii)

lemma trips_match_ascii_eq:
  "agrees_on_ascii toLowerCase \<Longrightarrow> is_ascii term \<Longrightarrow> trip_is_ascii t \<Longrightarrow>
     trips_match toLowerCase term t = trips_match_ascii term t"
  by (simp add: trips_match_def trips_match_ascii_def trip_is_ascii_def contains_lowered_ascii)

lemma contains_exactly_ignoring_case:
  "contains_exactly f t \<Longrightarrow> contains_ignoring_case f t"
  by (auto simp: contains_exactly_def contains_ignoring_case_def split: option.splits)

lemma users_match_ignoring_case: "users_match_ascii t u \<Longrightarrow> users_match_ignoring_case t u"
  unfolding users_match_ascii_def users_match_ignoring_case_def
  using contains_exactly_ignoring_case by blast

lemma trips_match_ignoring_case: "trips_match_ascii s t \<Longrightarrow> trips_match_ignoring_case s t"
  unfolding trips_match_ascii_def trips_match_ignoring_case_def
  using contains_exactly_ignoring_case by blast

lemma is_ascii_Nil: "is_ascii []"
  by (simp add: is_ascii_def)

lemma contains_empty:
  "agrees_on_ascii toLowerCase \<Longrightarrow> contains_lowered toLowerCase f [] = (f \<noteq> None)"
  "contains_exactly f [] = (f \<noteq> None)"
  by (simp_all add: contains_lowered_def contains_exactly_def agrees_on_ascii_def is_ascii_Nil
      ascii_toLowerCase_def split: option.splits)

lemma users_match_empty:
  "agrees_on_ascii toLowerCase \<Longrightarrow> users_match toLowerCase [] u = user_has_searched_field u"
  by (simp add: users_match_def user_has_searched_field_def contains_empty)

lemma trips_match_empty:
  "agrees_on_ascii toLowerCase \<Longrightarrow> trips_match toLowerCase [] t = trip_has_searched_field t"
  by (simp add: trips_match_def trip_has_searched_field_def contains_empty)

text \<open>
  On ASCII terms and records the lists are those that the lowering of ASCII gives, whatever
  \<open>toLowerCase\<close> does beyond ASCII.
\<close>

lemma includes_lower_ascii:
  "agrees_on_ascii toLowerCase \<Longrightarrow> is_ascii term \<Longrightarrow> field_is_ascii f \<Longrightarrow>
     includes_lower toLowerCase f term = includes_lower ascii_toLowerCase f term"
  by (simp add: includes_lower_def agrees_on_ascii_def field_is_ascii_def split: option.splits)

lemma filteredUsers_ascii:
  assumes "agrees_on_ascii toLowerCase" "is_ascii term" "\<forall>u\<in>set users. user_is_ascii u"
  shows "filteredUsers toLowerCase users term filterType =
     filteredUsers ascii_toLowerCase users term filterType"
proof -
  have "filter (\<lambda>u. users_matchesSearch toLowerCase term u \<and> users_matchesType filterType u) users =
        filter (\<lambda>u. users_matchesSearch ascii_toLowerCase term u \<and>
                     users_matchesType filterType u) users"
    using assms
    by (intro filter_cong refl)
      (simp add: users_matchesSearch_def user_is_ascii_def includes_lower_ascii)
  then show ?thesis by (simp add: filteredUsers_def)
qed

lemma filteredTrips_ascii:
  assumes "agrees_on_ascii toLowerCase" "is_ascii term" "\<forall>t\<in>set trips. trip_is_ascii t"
  shows "filteredTrips toLowerCase trips term filterType =
     filteredTrips ascii_toLowerCase trips term filterType"
  unfolding filteredTrips_def using assms
  by (intro filter_cong refl)
    (simp add: trips_matchesSearch_def trip_is_ascii_def includes_lower_ascii)

lemma trips_filteredUsers_ascii:
  assumes "agrees_on_ascii toLowerCase" "is_ascii term"
    "\<forall>u\<in>set (guides trips). guide_is_ascii u"
  shows "trips_filteredUsers toLowerCase trips term filterType =
     trips_filteredUsers ascii_toLowerCase trips term filterType"
proof -
  have "set (uniqueGuides (guides trips)) \<subseteq> set (guides trips)"
    by (simp add: uniqueGuides_nths set_nths_subset)
  with assms(3) have "\<forall>u\<in>set (uniqueGuides (guides trips)). guide_is_ascii u" by blast
  with assms(1,2) show ?thesis
    unfolding trips_filteredUsers_def
    by (intro filter_cong refl)
      (simp add: guides_matchesSearch_def guide_is_ascii_def includes_lower_ascii)
qed

text \<open>
  C3, as the code has it. With the category filter at \<open>all\<close>, a record is kept if and only
  if one of its searched fields contains the term: the phone fields as they are written,
  and the others (name, surname and plate number of a user; names and surnames of guide
  and driver, trip code and company name of a trip) once field and term are lowered by
  \<open>toLowerCase\<close>. A term that no searched field contains in this way leaves nothing,
  whatever the category filter. The empty term keeps every record that has one of the
  searched fields. For ASCII terms and records the lowered comparison is the comparison
  without regard to the case of letters, and a term that no searched field contains even
  without regard to case leaves nothing.
\<close>

theorem search_filter_kept_iff:
  "filteredUsers toLowerCase users term ''all'' =
     js_sort compare_users (filter (users_match toLowerCase term) users) \<and>
   set (filteredUsers toLowerCase users term ''all'') =
     {u \<in> set users. users_match toLowerCase term u} \<and>
   filteredTrips toLowerCase trips term ''all'' = filter (trips_match toLowerCase term) trips \<and>
   ((\<forall>u\<in>set users. \<not> users_match toLowerCase term u) \<longrightarrow>
      filteredUsers toLowerCase users term filterType = []) \<and>
   ((\<forall>t\<in>set trips. \<not> trips_match toLowerCase term t) \<longrightarrow>
      filteredTrips toLowerCase trips term filterType = []) \<and>
   (agrees_on_ascii toLowerCase \<longrightarrow>
      set (filteredUsers toLowerCase users [] ''all'') =
        {u \<in> set users. user_has_searched_field u} \<and>
      filteredTrips toLowerCase trips [] ''all'' = filter trip_has_searched_field trips \<and>
      (is_ascii term \<and> (\<forall>u\<in>set users. user_is_ascii u) \<longrightarrow>
         set (filteredUsers toLowerCase users term ''all'') =
           {u \<in> set users. users_match_ascii term u} \<and>
         ((\<forall>u\<in>set users. \<not> users_match_ignoring_case term u) \<longrightarrow>
            filteredUsers toLowerCase users term filterType = [])) \<and>
      (is_ascii term \<and> (\<forall>t\<in>set trips. trip_is_ascii t) \<longrightarrow>
         filteredTrips toLowerCase trips term ''all'' = filter (trips_match_ascii term) trips \<and>
         ((\<forall>t\<in>set trips. \<not> trips_match_ignoring_case term t) \<longrightarrow>
            filteredTrips toLowerCase trips term filterType = [])))"
proof -
  have g1: "set (filteredUsers toLowerCase users term ''all'') =
      {u \<in> set users. users_match toLowerCase term u}"
    by (simp add: filteredUsers_all set_js_sort)
  have e1: "set (filteredUsers toLowerCase users [] ''all'') =
      {u \<in> set users. user_has_searched_field u}" if "agrees_on_ascii toLowerCase"
    using that by (simp add: filteredUsers_all set_js_sort users_match_empty)
  have e2: "filteredTrips toLowerCase trips [] ''all'' = filter trip_has_searched_field trips"
    if "agrees_on_ascii toLowerCase"
    using that by (simp add: filteredTrips_all trips_match_empty cong: filter_cong)
  have a1: "set (filteredUsers toLowerCase users term ''all'') =
      {u \<in> set users. users_match_ascii term u}"
    if "agrees_on_ascii toLowerCase" "is_ascii term" "\<forall>u\<in>set users. user_is_ascii u"
    using that users_match_ascii_eq [of toLowerCase "term"] by (auto simp: g1)
  have a2: "filteredUsers toLowerCase users term filterType = []"
    if "agrees_on_ascii toLowerCase" "is_ascii term" "\<forall>u\<in>set users. user_is_ascii u"
      "\<forall>u\<in>set users. \<not> users_match_ignoring_case term u"
  proof (rule filteredUsers_no_match)
    show "\<forall>u\<in>set users. \<not> users_match toLowerCase term u"
      using that users_match_ascii_eq [of toLowerCase "term"] users_match_ignoring_case
      by blast
  qed
  have a3: "filteredTrips toLowerCase trips term ''all'' = filter (trips_match_ascii term) trips"
    if "agrees_on_ascii toLowerCase" "is_ascii term" "\<forall>t\<in>set trips. trip_is_ascii t"
    unfolding filteredTrips_all using that
    by (intro filter_cong refl) (simp add: trips_match_ascii_eq)
  have a4: "filteredTrips toLowerCase trips term filterType = []"
    if "agrees_on_ascii toLowerCase" "is_ascii term" "\<forall>t\<in>set trips. trip_is_ascii t"
      "\<forall>t\<in>set trips. \<not> trips_match_ignoring_case term t"
  proof (rule filteredTrips_no_match)
    show "\<forall>t\<in>set trips. \<not> trips_match toLowerCase term t"
      using that trips_match_ascii_eq [of toLowerCase "term"] trips_match_ignoring_case
      by blast
  qed
  show ?thesis
    using filteredUsers_all [of toLowerCase users "term"] g1
      filteredTrips_all [of toLowerCase trips "term"]
      filteredUsers_no_match [of users toLowerCase "term" filterType]
      filteredTrips_no_match [of trips toLowerCase "term" filterType]
      e1 e2 a1 a2 a3 a4
    by (intro conjI impI) blast+
qed

theorem search_filter_kept_iff_witness:
  "agrees_on_ascii ascii_toLowerCase \<and> is_ascii ''bOL'' \<and> is_ascii ''zz'' \<and>
   user_is_ascii (sample_user 1 ''Bold'' None True) \<and>
   user_is_ascii (sample_user 2 ''Saraa'' None True) \<and>
   trip_is_ascii (sample_trip None False False) \<and>
   set (filteredUsers ascii_toLowerCase
     [sample_user 1 ''Bold'' None True, sample_user 2 ''Saraa'' None True] ''bOL'' ''all'') =
     {sample_user 1 ''Bold'' None True} \<and>
   \<not> users_match_ignoring_case ''zz'' (sample_user 1 ''Bold'' None True) \<and>
   \<not> users_match_ignoring_case ''zz'' (sample_user 2 ''Saraa'' None True) \<and>
   filteredUsers ascii_toLowerCase
     [sample_user 1 ''Bold'' None True, sample_user 2 ''Saraa'' None True] ''zz'' ''all'' = [] \<and>
   \<not> trips_match_ignoring_case ''zz'' (sample_trip None False False) \<and>
   filteredTrips ascii_toLowerCase [sample_trip None False False] ''zz'' ''all'' = []"
proof -
  let ?B = "sample_user 1 ''Bold'' None True"
  let ?S = "sample_user 2 ''Saraa'' None True"
  let ?T = "sample_trip None False False"
  have ag: "agrees_on_ascii ascii_toLowerCase"
    by (simp add: agrees_on_ascii_def)
  have t: "is_ascii ''bOL''" "is_ascii ''zz''"
    by (simp_all add: is_ascii_def)
  have ua: "user_is_ascii ?B" "user_is_ascii ?S"
    by (simp_all add: user_is_ascii_def field_is_ascii_def is_ascii_def sample_user_def)
  then have all: "\<forall>u\<in>set [?B, ?S]. user_is_ascii u" by simp
  have ta: "trip_is_ascii ?T"
    by (simp add: trip_is_ascii_def field_is_ascii_def is_ascii_def sample_trip_def
        opt_field_def)
  then have tall: "\<forall>t\<in>set [?T]. trip_is_ascii t" by simp
  have m: "users_match_ascii ''bOL'' ?B" "\<not> users_match_ascii ''bOL'' ?S"
    by (simp_all add: users_match_ascii_def contains_ignoring_case_sublist contains_exactly_def
        sample_user_def ascii_toLowerCase_def ascii_lower_char_def sublist_code)
  have n: "\<not> users_match_ignoring_case ''zz'' ?B" "\<not> users_match_ignoring_case ''zz'' ?S"
    by (simp_all add: users_match_ignoring_case_def contains_ignoring_case_sublist
        sample_user_def ascii_toLowerCase_def ascii_lower_char_def sublist_code)
  then have nall: "\<forall>u\<in>set [?B, ?S]. \<not> users_match_ignoring_case ''zz'' u" by simp
  have nt: "\<not> trips_match_ignoring_case ''zz'' ?T"
    by (simp add: trips_match_ignoring_case_def contains_ignoring_case_sublist
        sample_trip_def opt_field_def ascii_toLowerCase_def ascii_lower_char_def sublist_code)
  then have ntall: "\<forall>t\<in>set [?T]. \<not> trips_match_ignoring_case ''zz'' t" by simp
  note on_ascii = conjunct2 [THEN conjunct2, THEN conjunct2, THEN conjunct2, THEN conjunct2,
      THEN mp, OF _ ag]
  note th1 = search_filter_kept_iff [of ascii_toLowerCase "[?B, ?S]" "''bOL''" "[]" "''all''",
      THEN on_ascii]
  note th2 = search_filter_kept_iff [of ascii_toLowerCase "[?B, ?S]" "''zz''" "[?T]" "''all''",
      THEN on_ascii]
  from th1 [THEN conjunct2, THEN conjunct2, THEN conjunct1, THEN mp, OF conjI [OF t(1) all]]
  have "set (filteredUsers ascii_toLowerCase [?B, ?S] ''bOL'' ''all'') =
      {u \<in> set [?B, ?S]. users_match_ascii ''bOL'' u}"
    by (rule conjunct1)
  also have "\<dots> = {?B}" using m by auto
  finally have r1: "set (filteredUsers ascii_toLowerCase [?B, ?S] ''bOL'' ''all'') = {?B}" .
  from th2 [THEN conjunct2, THEN conjunct2, THEN conjunct1, THEN mp, OF conjI [OF t(2) all],
      THEN conjunct2, THEN mp, OF nall]
  have r2: "filteredUsers ascii_toLowerCase [?B, ?S] ''zz'' ''all'' = []" .
  from th2 [THEN conjunct2, THEN conjunct2, THEN conjunct2, THEN mp, OF conjI [OF t(2) tall],
      THEN conjunct2, THEN mp, OF ntall]
  have r3: "filteredTrips ascii_toLowerCase [?T] ''zz'' ''all'' = []" .
  from ag t ua ta r1 n r2 nt r3 show ?thesis by (intro conjI)
qed

text \<open>
  A user whose phone is \<open>99A1\<close> contains the term \<open>a\<close> when case is ignored, and is not
  kept; a user with none of the searched fields is not kept by the empty term. The strings
  are ASCII, on which every \<open>toLowerCase\<close> that agrees with the language's gives the same
  lists (lemma \<open>filteredUsers_ascii\<close>).
\<close>

theorem search_phone_case_sensitive:
  "users_match_ignoring_case ''a'' ((sample_user 1 ''Bold'' None True)\<lparr>phone := Some ''99A1''\<rparr>) \<and>
   (sample_user 1 ''Bold'' None True)\<lparr>phone := Some ''99A1''\<rparr>
     \<notin> set (filteredUsers ascii_toLowerCase
         [(sample_user 1 ''Bold'' None True)\<lparr>phone := Some ''99A1''\<rparr>] ''a'' ''all'') \<and>
   (sample_user 2 ''Bold'' None True)\<lparr>name := None\<rparr>
     \<notin> set (filteredUsers ascii_toLowerCase
         [(sample_user 2 ''Bold'' None True)\<lparr>name := None\<rparr>] [] ''all'')"
proof -
  have a: "users_match_ignoring_case ''a''
      ((sample_user 1 ''Bold'' None True)\<lparr>phone := Some ''99A1''\<rparr>)"
    by (simp add: users_match_ignoring_case_def contains_ignoring_case_sublist sample_user_def
        ascii_toLowerCase_def ascii_lower_char_def sublist_code)
  have b: "filteredUsers ascii_toLowerCase
      [(sample_user 1 ''Bold'' None True)\<lparr>phone := Some ''99A1''\<rparr>] ''a'' ''all'' = []"
    by (simp add: filteredUsers_def js_sort_def users_matchesSearch_def includes_lower_def
        includes_exact_def sample_user_def ascii_toLowerCase_def ascii_lower_char_def)
  have c: "filteredUsers ascii_toLowerCase
      [(sample_user 2 ''Bold'' None True)\<lparr>name := None\<rparr>] [] ''all'' = []"
    by (simp add: filteredUsers_def js_sort_def users_matchesSearch_def includes_lower_def
        includes_exact_def sample_user_def)
  from a b c show ?thesis by simp
qed

section \<open>Statistics: histograms and percentages\<close>

lemma increment_cases:
  "increment acc k = acc \<or> (\<exists>v. increment acc k = acc(k \<mapsto> v))"
proof (cases "acc k")
  case None
  then show ?thesis by (auto simp: increment_def)
next
  case (Some v)
  then show ?thesis by (cases v) (auto simp: increment_def)
qed

lemma increment_other: "k \<noteq> k' \<Longrightarrow> increment acc k k' = acc k'"
  using increment_cases [of acc k] by auto

lemma increment_same:
  "k \<notin> set Object_prototype_keys \<Longrightarrow> acc k \<noteq> Some Text \<Longrightarrow>
     increment acc k k = Some (Count (bucket acc k + 1))"
proof (cases "acc k")
  case None
  assume "k \<notin> set Object_prototype_keys"
  moreover from this have "k \<noteq> ''__proto__''" by (auto simp: Object_prototype_keys_def)
  ultimately show ?thesis using None by (simp add: increment_def bucket_def)
next
  case (Some v)
  assume "acc k \<noteq> Some Text"
  with Some obtain c where "v = Count c" by (cases v) auto
  with Some show ?thesis by (simp add: increment_def bucket_def)
qed

lemma increment_not_Text:
  "k' \<notin> set Object_prototype_keys \<Longrightarrow> acc k' \<noteq> Some Text \<Longrightarrow> increment acc k k' \<noteq> Some Text"
  by (cases "k = k'") (simp_all add: increment_other increment_same)

lemma bucket_increment:
  "k' \<notin> set Object_prototype_keys \<Longrightarrow> acc k' \<noteq> Some Text \<Longrightarrow>
     bucket (increment acc k) k' = (if k = k' then bucket acc k' + 1 else bucket acc k')"
proof (cases "k = k'")
  case True
  assume "k' \<notin> set Object_prototype_keys" "acc k' \<noteq> Some Text"
  with True have "increment acc k k' = Some (Count (bucket acc k' + 1))"
    by (simp add: increment_same)
  with True show ?thesis by (simp add: bucket_def)
next
  case False
  then have "increment acc k k' = acc k'" by (rule increment_other)
  with False show ?thesis by (simp add: bucket_def)
qed

lemma dom_increment: "dom (increment acc k) \<subseteq> insert k (dom acc)"
  using increment_cases [of acc k] by auto

lemma bucket_fold_increment:
  "k \<notin> set Object_prototype_keys \<Longrightarrow> acc k \<noteq> Some Text \<Longrightarrow>
     bucket (fold (\<lambda>x acc. increment acc (key x)) xs acc) k =
       bucket acc k + length (filter (\<lambda>x. key x = k) xs)"
proof (induction xs arbitrary: acc)
  case Nil
  then show ?case by simp
next
  case (Cons x xs)
  from Cons.prems have "increment acc (key x) k \<noteq> Some Text"
    by (rule increment_not_Text)
  with Cons.IH [of "increment acc (key x)"] Cons.prems show ?case
    by (simp add: bucket_increment)
qed

lemma dom_fold_increment:
  "dom (fold (\<lambda>x acc. increment acc (key x)) xs acc) \<subseteq> dom acc \<union> key ` set xs"
proof (induction xs arbitrary: acc)
  case Nil
  then show ?case by simp
next
  case (Cons x xs)
  have "dom (increment acc (key x)) \<subseteq> insert (key x) (dom acc)"
    by (rule dom_increment)
  with Cons [of "increment acc (key x)"] show ?case by auto
qed

lemma status_keys_own:
  "''finished'' \<notin> set Object_prototype_keys" "''cancelled'' \<notin> set Object_prototype_keys"
  "''active'' \<notin> set Object_prototype_keys"
  by (simp_all add: Object_prototype_keys_def)

lemma bucket_empty: "bucket Map.empty k = 0"
  by (simp add: bucket_def)

lemma count_status_key:
  "count_status =
     (\<lambda>t acc. increment acc
        (if is_finished t then ''finished''
         else if is_cancelled t then ''cancelled'' else ''active''))"
  by (simp add: fun_eq_iff count_status_def)

lemma tripStatuses_stats: "tripStatuses (trips_stats parse now trips) = fold count_status trips Map.empty"
  by (simp add: trips_stats_def Let_def)

lemma tripStatuses_bucket:
  "k \<notin> set Object_prototype_keys \<Longrightarrow>
     bucket (tripStatuses (trips_stats parse now trips)) k =
       length (filter (\<lambda>t. (if is_finished t then ''finished''
                             else if is_cancelled t then ''cancelled'' else ''active'') = k) trips)"
  unfolding tripStatuses_stats count_status_key
  by (simp add: bucket_fold_increment bucket_empty)

lemma three_way_split:
  "length (filter p xs) + length (filter (\<lambda>x. \<not> p x \<and> q x) xs) +
     length (filter (\<lambda>x. \<not> p x \<and> \<not> q x) xs) = length xs"
  by (induction xs) auto

text \<open>
  C9. The histogram \<open>tripStatuses\<close> counts a trip as finished when \<open>is_finished\<close> is set,
  whatever \<open>is_cancelled\<close> says, as cancelled when only \<open>is_cancelled\<close> is set, and as
  active otherwise; it has no other key, and its three counts add up to the number of
  trips. A trip with both flags is counted, and labelled by the status badge, as finished.
\<close>

theorem tripStatuses_finished_first:
  "bucket (tripStatuses (trips_stats parse now trips)) ''finished'' =
     length (filter is_finished trips) \<and>
   bucket (tripStatuses (trips_stats parse now trips)) ''cancelled'' =
     length (filter (\<lambda>t. \<not> is_finished t \<and> is_cancelled t) trips) \<and>
   bucket (tripStatuses (trips_stats parse now trips)) ''active'' =
     length (filter (\<lambda>t. \<not> is_finished t \<and> \<not> is_cancelled t) trips) \<and>
   dom (tripStatuses (trips_stats parse now trips)) \<subseteq> {''finished'', ''cancelled'', ''active''} \<and>
   bucket (tripStatuses (trips_stats parse now trips)) ''finished'' +
     bucket (tripStatuses (trips_stats parse now trips)) ''cancelled'' +
     bucket (tripStatuses (trips_stats parse now trips)) ''active'' = length trips \<and>
   (is_finished t \<and> is_cancelled t \<longrightarrow>
      status_label t = ''Finished'' \<and> count_status t acc = increment acc ''finished'')"
proof -
  let ?h = "tripStatuses (trips_stats parse now trips)"
  have f: "bucket ?h ''finished'' = length (filter is_finished trips)"
    unfolding tripStatuses_bucket [OF status_keys_own(1)]
    by (auto intro: arg_cong [where f = length] filter_cong)
  have c: "bucket ?h ''cancelled'' = length (filter (\<lambda>t. \<not> is_finished t \<and> is_cancelled t) trips)"
    unfolding tripStatuses_bucket [OF status_keys_own(2)]
    by (auto intro!: arg_cong [where f = length] filter_cong)
  have a: "bucket ?h ''active'' = length (filter (\<lambda>t. \<not> is_finished t \<and> \<not> is_cancelled t) trips)"
    unfolding tripStatuses_bucket [OF status_keys_own(3)]
    by (auto intro!: arg_cong [where f = length] filter_cong)
  have d: "dom ?h \<subseteq> {''finished'', ''cancelled'', ''active''}"
    unfolding tripStatuses_stats count_status_key
    using dom_fold_increment [of "\<lambda>t. if is_finished t then ''finished''
      else if is_cancelled t then ''cancelled'' else ''active''" trips Map.empty]
    by auto
  have s: "bucket ?h ''finished'' + bucket ?h ''cancelled'' + bucket ?h ''active'' = length trips"
    unfolding f c a by (rule three_way_split)
  have l: "is_finished t \<and> is_cancelled t \<longrightarrow>
      status_label t = ''Finished'' \<and> count_status t acc = increment acc ''finished''"
    by (simp add: status_label_def count_status_def)
  from f c a d s l show ?thesis by blast
qed

theorem tripStatuses_finished_first_witness:
  "is_finished (sample_trip None True True) \<and> is_cancelled (sample_trip None True True) \<and>
   status_label (sample_trip None True True) = ''Finished'' \<and>
   tripStatuses (trips_stats (\<lambda>s. None) 0
     [sample_trip None True True, sample_trip None False True, sample_trip None False False])
     ''finished'' = Some (Count 1) \<and>
   bucket (tripStatuses (trips_stats (\<lambda>s. None) 0
     [sample_trip None True True, sample_trip None False True, sample_trip None False False]))
     ''cancelled'' = 1"
proof -
  have a: "is_finished (sample_trip None True True) \<and> is_cancelled (sample_trip None True True)"
    by (simp add: sample_trip_def)
  have b: "tripStatuses (trips_stats (\<lambda>s. None) 0
     [sample_trip None True True, sample_trip None False True, sample_trip None False False])
     ''finished'' = Some (Count 1)"
    by (simp add: tripStatuses_stats count_status_def increment_def sample_trip_def
        Object_prototype_keys_def)
  note t = tripStatuses_finished_first [of "\<lambda>s. None" 0
     "[sample_trip None True True, sample_trip None False True, sample_trip None False False]"
     "sample_trip None True True" Map.empty]
  from t a have c: "status_label (sample_trip None True True) = ''Finished''"
    by blast
  from t have "bucket (tripStatuses (trips_stats (\<lambda>s. None) 0
     [sample_trip None True True, sample_trip None False True, sample_trip None False False]))
     ''cancelled'' =
     length (filter (\<lambda>t. \<not> is_finished t \<and> is_cancelled t)
     [sample_trip None True True, sample_trip None False True, sample_trip None False False])"
    by blast
  then have d: "bucket (tripStatuses (trips_stats (\<lambda>s. None) 0
     [sample_trip None True True, sample_trip None False True, sample_trip None False False]))
     ''cancelled'' = 1"
    by (simp add: sample_trip_def)
  from a b c d show ?thesis by blast
qed

section \<open>Rounding to a double\<close>

lemma round_half_even_err: "\<bar>of_int (round_half_even x) - x\<bar> \<le> 1 / 2"
proof -
  define f where "f = \<lfloor>x\<rfloor>"
  define d where "d = x - of_int f"
  have fx: "x = of_int f + d" by (simp add: d_def)
  have d: "0 \<le> d" "d < 1" unfolding d_def f_def by linarith+
  have "round_half_even x = (if d < 1 / 2 then f else if 1 / 2 < d then f + 1
      else if even f then f else f + 1)"
    by (simp add: round_half_even_def Let_def f_def d_def)
  then show ?thesis
    unfolding fx using d by (auto simp: abs_if)
qed

lemma powi_bitlen_le:
  assumes "0 < (a::int)"
  shows "(2::rat) powi (bitlen a - 1) \<le> of_int a" "of_int a < (2::rat) powi bitlen a"
proof -
  from bitlen_bounds [OF assms] have l: "2 ^ nat (bitlen a - 1) \<le> a" and u: "a < 2 ^ nat (bitlen a)"
    by auto
  have p: "1 \<le> bitlen a" using assms by (simp add: bitlen_alt_def)
  have "(2::rat) powi (bitlen a - 1) = 2 ^ nat (bitlen a - 1)"
    using p by (simp add: power_int_def)
  also have "\<dots> = of_int (2 ^ nat (bitlen a - 1))" by simp
  also have "\<dots> \<le> of_int a" using l by (simp only: of_int_le_iff)
  finally show "(2::rat) powi (bitlen a - 1) \<le> of_int a" .
  have "(2::rat) powi bitlen a = 2 ^ nat (bitlen a)"
    using p by (simp add: power_int_def)
  also have "\<dots> = of_int (2 ^ nat (bitlen a))" by simp
  finally have e: "(2::rat) powi bitlen a = of_int (2 ^ nat (bitlen a))" .
  show "of_int a < (2::rat) powi bitlen a"
    unfolding e using u by (simp only: of_int_less_iff)
qed

lemma exponent_bounds:
  assumes "0 < x"
  shows "2 powi exponent x \<le> x" "x < 2 powi (exponent x + 1)"
proof -
  obtain a b where q: "quotient_of x = (a, b)" by (cases "quotient_of x")
  then have x: "x = of_int a / of_int b" and b: "0 < b"
    by (simp_all add: quotient_of_div quotient_of_denom_pos)
  with assms have a: "0 < a" by (simp add: zero_less_divide_iff)
  let ?e0 = "bitlen a - bitlen b"
  have lo: "2 powi (?e0 - 1) \<le> x"
  proof -
    have "(2::rat) powi (?e0 - 1) = 2 powi (bitlen a - 1) / 2 powi bitlen b"
      by (simp add: power_int_diff)
    also have "\<dots> \<le> of_int a / 2 powi bitlen b"
      using powi_bitlen_le(1) [OF a] by (simp add: divide_right_mono)
    also have "\<dots> \<le> of_int a / of_int b"
      using powi_bitlen_le(2) [OF b] a b by (simp add: frac_le)
    finally show ?thesis by (simp add: x)
  qed
  have hi: "x < 2 powi (?e0 + 1)"
  proof -
    have "of_int a / of_int b < 2 powi bitlen a / (of_int b :: rat)"
      using powi_bitlen_le(2) [OF a] b by (simp add: divide_strict_right_mono)
    also have "\<dots> \<le> 2 powi bitlen a / 2 powi (bitlen b - 1)"
      using powi_bitlen_le(1) [OF b] by (simp add: frac_le)
    also have "\<dots> = 2 powi (?e0 + 1)"
      by (simp add: power_int_diff power_int_add)
    finally show ?thesis by (simp add: x)
  qed
  show "2 powi exponent x \<le> x"
    using lo by (simp add: exponent_def q Let_def)
  show "x < 2 powi (exponent x + 1)"
    using hi by (simp add: exponent_def q Let_def)
qed

lemma round_double_err: "\<bar>round_double x - x\<bar> \<le> \<bar>x\<bar> / 2 ^ 53"
proof (cases "x = 0")
  case True
  then show ?thesis by (simp add: round_double_def)
next
  case False
  define a where "a = \<bar>x\<bar>"
  define ulp :: rat where "ulp = 2 powi (exponent a - 52)"
  have a: "0 < a" using False by (simp add: a_def)
  have ulp: "0 < ulp" by (simp add: ulp_def)
  have r: "round_double x = sgn x * (of_int (round_half_even (a / ulp)) * ulp)"
    using False by (simp add: round_double_def Let_def a_def ulp_def)
  have "\<bar>round_double x - x\<bar> = \<bar>of_int (round_half_even (a / ulp)) * ulp - a\<bar>"
  proof (cases "0 < x")
    case True
    then have "sgn x = 1" "a = x" by (simp_all add: a_def)
    then show ?thesis unfolding r by simp
  next
    case neg: False
    with False have "sgn x = - 1" "x = - a" by (simp_all add: a_def)
    then have "round_double x - x = - (of_int (round_half_even (a / ulp)) * ulp - a)"
      unfolding r by simp
    then show ?thesis by (simp only: abs_minus_cancel)
  qed
  also have "\<dots> = \<bar>of_int (round_half_even (a / ulp)) - a / ulp\<bar> * ulp"
  proof -
    have "of_int (round_half_even (a / ulp)) * ulp - a =
          (of_int (round_half_even (a / ulp)) - a / ulp) * ulp"
      using ulp by (simp add: left_diff_distrib)
    then show ?thesis using ulp by (simp only: abs_mult abs_of_pos)
  qed
  also have "\<dots> \<le> 1 / 2 * ulp"
    using round_half_even_err [of "a / ulp"] ulp by (simp add: mult_right_mono)
  also have "\<dots> = 2 powi exponent a / 2 ^ 53"
    by (simp add: ulp_def power_int_diff)
  also have "\<dots> \<le> a / 2 ^ 53"
    using exponent_bounds(1) [OF a] by (simp add: divide_right_mono)
  finally show ?thesis by (simp add: a_def)
qed

lemma round_double_twice_err:
  "\<bar>round_double (round_double x * y) - x * y\<bar> \<le> \<bar>x * y\<bar> / 2 ^ 51"
proof -
  define q where "q = round_double x"
  have q: "\<bar>q - x\<bar> \<le> \<bar>x\<bar> / 2 ^ 53"
    unfolding q_def by (rule round_double_err)
  then have qa: "\<bar>q\<bar> \<le> \<bar>x\<bar> + \<bar>x\<bar> / 2 ^ 53" by linarith
  have "\<bar>q * y - x * y\<bar> = \<bar>q - x\<bar> * \<bar>y\<bar>"
    by (simp add: abs_mult [symmetric] left_diff_distrib)
  also have "\<dots> \<le> \<bar>x\<bar> / 2 ^ 53 * \<bar>y\<bar>"
    using q by (rule mult_right_mono) simp
  finally have d1: "\<bar>q * y - x * y\<bar> \<le> \<bar>x * y\<bar> / 2 ^ 53"
    by (simp add: abs_mult)
  have "\<bar>round_double (q * y) - q * y\<bar> \<le> \<bar>q * y\<bar> / 2 ^ 53"
    by (rule round_double_err)
  also have "\<dots> = \<bar>q\<bar> * \<bar>y\<bar> / 2 ^ 53" by (simp add: abs_mult)
  also have "\<dots> \<le> (\<bar>x\<bar> + \<bar>x\<bar> / 2 ^ 53) * \<bar>y\<bar> / 2 ^ 53"
    using qa by (intro divide_right_mono mult_right_mono) simp_all
  finally have d2: "\<bar>round_double (q * y) - q * y\<bar> \<le> (\<bar>x\<bar> + \<bar>x\<bar> / 2 ^ 53) * \<bar>y\<bar> / 2 ^ 53" .
  have "\<bar>round_double (q * y) - x * y\<bar> \<le>
      \<bar>round_double (q * y) - q * y\<bar> + \<bar>q * y - x * y\<bar>"
    by linarith
  also have "\<dots> \<le> (\<bar>x\<bar> + \<bar>x\<bar> / 2 ^ 53) * \<bar>y\<bar> / 2 ^ 53 + \<bar>x * y\<bar> / 2 ^ 53"
    using d1 d2 by linarith
  also have "\<dots> = \<bar>x * y\<bar> * (2 / 2 ^ 53 + 1 / 2 ^ 106)"
    by (simp add: abs_mult algebra_simps)
  also have "\<dots> \<le> \<bar>x * y\<bar> * (1 / 2 ^ 51)"
    by (intro mult_left_mono) simp_all
  finally show ?thesis by (simp add: q_def)
qed

lemma js_percentage_within_rounding:
  "y \<noteq> 0 \<Longrightarrow> within_rounding (js_times (js_divide x y) 100) (x / y * 100)"
  using round_double_twice_err [of "x / y" 100]
  by (simp add: within_rounding_def js_divide_def js_times_def)

lemma js_divide_zero_zero: "js_times (js_divide 0 0) 100 = NaN"
  by (simp add: js_divide_def js_times_def)

lemma percentage_of_field:
  "percentage_of
     (if 0 < tot then js_times (js_divide (of_nat cnt) (of_nat tot)) 100 else Num 0) cnt tot"
proof (cases "tot = 0")
  case True
  then show ?thesis by (simp add: percentage_of_def)
next
  case False
  then have "within_rounding (js_times (js_divide (of_nat cnt) (of_nat tot)) 100)
      (of_nat cnt / of_nat tot * 100)"
    by (intro js_percentage_within_rounding) simp
  with False show ?thesis by (simp only: percentage_of_def) simp
qed

text \<open>
  C6. Each percentage of the statistics is 0 when its total is 0 and otherwise the count
  divided by the total, times 100, as the double arithmetic computes it, which is that
  number up to rounding: the active and onboarded users of the dashboard page over its
  users, the finished and cancelled trips of the trips page over its trips, and the active
  and onboarded guides of the trips page over its deduplicated guides. Without the test of
  the total, an empty total would give NaN.
\<close>

theorem percentages_zero_or_ratio:
  "percentage_of (activePercentage (users_stats tz parse now users))
     (length (filter is_active users)) (length users) \<and>
   percentage_of (onboardedPercentage (users_stats tz parse now users))
     (length (filter is_onboarded users)) (length users) \<and>
   percentage_of (finishedPercentage (trips_stats parse now trips))
     (length (filter is_finished trips)) (length trips) \<and>
   percentage_of (cancelledPercentage (trips_stats parse now trips))
     (length (filter is_cancelled trips)) (length trips) \<and>
   percentage_of (activePercentage (trips_stats parse now trips))
     (length (filter is_active (uniqueGuides (guides trips))))
     (length (uniqueGuides (guides trips))) \<and>
   percentage_of (onboardedPercentage (trips_stats parse now trips))
     (length (filter is_onboarded (uniqueGuides (guides trips))))
     (length (uniqueGuides (guides trips))) \<and>
   (let s = users_stats tz parse now users in
      totalUsers s = length users \<and> activeUsers s = length (filter is_active users) \<and>
      onboardedUsers s = length (filter is_onboarded users) \<and>
      percentage_of (activePercentage s) (activeUsers s) (totalUsers s) \<and>
      percentage_of (onboardedPercentage s) (onboardedUsers s) (totalUsers s)) \<and>
   (let s = trips_stats parse now trips in
      totalTrips s = length trips \<and> finishedTrips s = length (filter is_finished trips) \<and>
      cancelledTrips s = length (filter is_cancelled trips) \<and>
      percentage_of (finishedPercentage s) (finishedTrips s) (totalTrips s) \<and>
      percentage_of (cancelledPercentage s) (cancelledTrips s) (totalTrips s) \<and>
      percentage_of (activePercentage s) (activeUsers s) (totalUsers s) \<and>
      percentage_of (onboardedPercentage s) (onboardedUsers s) (totalUsers s)) \<and>
   js_times (js_divide 0 0) 100 = NaN"
  by (simp add: users_stats_def trips_stats_def Let_def percentage_of_field
      js_divide_zero_zero del: length_greater_0_conv)

theorem percentages_zero_or_ratio_witness:
  "activePercentage (users_stats (fixed_offset 0) (\<lambda>s. None) 0 []) = Num 0 \<and>
   activePercentage (users_stats (fixed_offset 0) (\<lambda>s. None) 0
     [sample_user 1 ''A'' None True, (sample_user 2 ''B'' None True)\<lparr>is_active := False\<rparr>,
      (sample_user 3 ''C'' None False)\<lparr>is_active := False\<rparr>,
      (sample_user 4 ''D'' None False)\<lparr>is_active := False\<rparr>]) = Num 25 \<and>
   activePercentage (users_stats (fixed_offset 0) (\<lambda>s. None) 0
     [sample_user 1 ''A'' None True, (sample_user 2 ''B'' None True)\<lparr>is_active := False\<rparr>,
      (sample_user 3 ''C'' None False)\<lparr>is_active := False\<rparr>]) =
     Num (2345624805922133 / 70368744177664) \<and>
   finishedPercentage (trips_stats (\<lambda>s. None) 0 []) = Num 0 \<and>
   finishedPercentage (trips_stats (\<lambda>s. None) 0
     [sample_trip None True False, sample_trip None False False]) = Num 50"
proof -
  have e25: "js_times (js_divide 1 4) 100 = Num 25" by code_simp
  have e33: "js_times (js_divide 1 3) 100 = Num (2345624805922133 / 70368744177664)"
    by code_simp
  have e50: "js_times (js_divide 1 2) 100 = Num 50" by code_simp
  note th0 = percentages_zero_or_ratio [of "fixed_offset 0" "\<lambda>s. None" 0 "[]" "[]"]
  note th4 = percentages_zero_or_ratio [of "fixed_offset 0" "\<lambda>s. None" 0
      "[sample_user 1 ''A'' None True, (sample_user 2 ''B'' None True)\<lparr>is_active := False\<rparr>,
      (sample_user 3 ''C'' None False)\<lparr>is_active := False\<rparr>,
      (sample_user 4 ''D'' None False)\<lparr>is_active := False\<rparr>]"
      "[sample_trip None True False, sample_trip None False False]"]
  note th3 = percentages_zero_or_ratio [of "fixed_offset 0" "\<lambda>s. None" 0
      "[sample_user 1 ''A'' None True, (sample_user 2 ''B'' None True)\<lparr>is_active := False\<rparr>,
      (sample_user 3 ''C'' None False)\<lparr>is_active := False\<rparr>]" "[]"]
  have a: "activePercentage (users_stats (fixed_offset 0) (\<lambda>s. None) 0 []) = Num 0"
    using th0 [THEN conjunct1] by (simp add: percentage_of_def)
  have b: "activePercentage (users_stats (fixed_offset 0) (\<lambda>s. None) 0
     [sample_user 1 ''A'' None True, (sample_user 2 ''B'' None True)\<lparr>is_active := False\<rparr>,
      (sample_user 3 ''C'' None False)\<lparr>is_active := False\<rparr>,
      (sample_user 4 ''D'' None False)\<lparr>is_active := False\<rparr>]) = Num 25"
    using th4 [THEN conjunct1] by (simp add: percentage_of_def sample_user_def e25)
  have c: "activePercentage (users_stats (fixed_offset 0) (\<lambda>s. None) 0
     [sample_user 1 ''A'' None True, (sample_user 2 ''B'' None True)\<lparr>is_active := False\<rparr>,
      (sample_user 3 ''C'' None False)\<lparr>is_active := False\<rparr>]) =
     Num (2345624805922133 / 70368744177664)"
    using th3 [THEN conjunct1] by (simp add: percentage_of_def sample_user_def e33)
  have d: "finishedPercentage (trips_stats (\<lambda>s. None) 0 []) = Num 0"
    using th0 [THEN conjunct2, THEN conjunct2, THEN conjunct1] by (simp add: percentage_of_def)
  have e: "finishedPercentage (trips_stats (\<lambda>s. None) 0
     [sample_trip None True False, sample_trip None False False]) = Num 50"
    using th4 [THEN conjunct2, THEN conjunct2, THEN conjunct1]
    by (simp add: percentage_of_def sample_trip_def e50)
  from a b c d e show ?thesis by (intro conjI)
qed

section \<open>The user-type histogram\<close>

lemma users_userTypes_bucket:
  "k \<notin> set Object_prototype_keys \<Longrightarrow>
     bucket (userTypes (users_stats tz parse now users)) k =
       length (filter (\<lambda>u. prop_key (user_type u) = k) users)"
  by (simp add: users_stats_def Let_def bucket_fold_increment bucket_empty)

lemma trips_userTypes_bucket:
  "k \<notin> set Object_prototype_keys \<Longrightarrow>
     bucket (userTypes (trips_stats parse now trips)) k =
       length (filter (\<lambda>g. type_or_unknown g = k) (uniqueGuides (guides trips)))"
  by (simp add: trips_stats_def Let_def bucket_fold_increment bucket_empty)

lemma type_keys_own:
  "''unknown'' \<notin> set Object_prototype_keys" "'''' \<notin> set Object_prototype_keys"
  "''undefined'' \<notin> set Object_prototype_keys" "''null'' \<notin> set Object_prototype_keys"
  by (simp_all add: Object_prototype_keys_def)

text \<open>
  C8, on the dashboard page. A user whose \<open>type\<close> is the empty string is counted under the
  empty key, a user without \<open>type\<close> under the key \<open>undefined\<close> and a user whose \<open>type\<close> is
  null under the key \<open>null\<close>; none is counted under \<open>unknown\<close>. The trips page counts the
  same guide under \<open>unknown\<close>.
\<close>

theorem users_stats_missing_type_bucket:
  "bucket (userTypes (users_stats tz parse now
     [(sample_user 1 ''Bold'' None True)\<lparr>user_type := Str ''''\<rparr>])) ''unknown'' = 0 \<and>
   bucket (userTypes (users_stats tz parse now
     [(sample_user 1 ''Bold'' None True)\<lparr>user_type := Str ''''\<rparr>])) '''' = 1 \<and>
   bucket (userTypes (users_stats tz parse now
     [(sample_user 1 ''Bold'' None True)\<lparr>user_type := Undefined\<rparr>])) ''unknown'' = 0 \<and>
   bucket (userTypes (users_stats tz parse now
     [(sample_user 1 ''Bold'' None True)\<lparr>user_type := Undefined\<rparr>])) ''undefined'' = 1 \<and>
   bucket (userTypes (users_stats tz parse now
     [(sample_user 1 ''Bold'' None True)\<lparr>user_type := Null\<rparr>])) ''unknown'' = 0 \<and>
   bucket (userTypes (users_stats tz parse now
     [(sample_user 1 ''Bold'' None True)\<lparr>user_type := Null\<rparr>])) ''null'' = 1 \<and>
   bucket (userTypes (trips_stats parse now
     [sample_trip (Some ((sample_user 1 ''Bold'' None True)\<lparr>user_type := Str ''''\<rparr>))
        False False])) ''unknown'' = 1"
proof -
  have "uniqueGuides (guides
     [sample_trip (Some ((sample_user 1 ''Bold'' None True)\<lparr>user_type := Str ''''\<rparr>))
        False False]) = [(sample_user 1 ''Bold'' None True)\<lparr>user_type := Str ''''\<rparr>]"
    by (simp add: guides_def sample_trip_def uniqueGuides_of_distinct)
  then show ?thesis
    by (simp add: users_userTypes_bucket trips_userTypes_bucket type_keys_own
        prop_key_def type_or_unknown_def sample_user_def)
qed

section \<open>Recent logins\<close>

lemma setDate_getDate_minus_7:
  "setDate tz month_start t (getDate tz month_start t - 7) = setDate_minus_7 tz t"
proof -
  have "(Day (LocalTime tz t) - 7) * msPerDay + TimeWithinDay (LocalTime tz t) =
        LocalTime tz t - 7 * msPerDay"
    by (simp add: Day_def TimeWithinDay_def algebra_simps)
  then show ?thesis
    by (simp add: setDate_def getDate_def setDate_minus_7_def Let_def)
qed

lemma setDate_minus_7_fixed_offset:
  "setDate_minus_7 (fixed_offset c) now = now - 7 * msPerDay"
  by (simp add: setDate_minus_7_def fixed_offset_def)

lemma diff_in_days_le_7:
  "((of_int d :: rat) / of_int (1000 * 60 * 60 * 24) \<le> 7) = (d \<le> 7 * msPerDay)"
proof -
  have "((of_int d :: rat) / of_int (1000 * 60 * 60 * 24) \<le> 7) =
        ((of_int d :: rat) \<le> of_int (7 * (1000 * 60 * 60 * 24)))"
    by (simp add: divide_le_eq)
  also have "\<dots> = (d \<le> 7 * (1000 * 60 * 60 * 24))"
    by (simp only: of_int_le_iff)
  finally show ?thesis by (simp add: msPerDay_def)
qed

lemma guides_recentLogin_iff:
  "guides_recentLogin parse now g =
     (\<exists>s t. last_login_at g = Some s \<and> s \<noteq> [] \<and> parse s = Some t \<and> now - t \<le> 7 * msPerDay)"
  unfolding guides_recentLogin_def Let_def diff_in_days_le_7
  by (auto split: option.splits)

lemma users_recentLogin_iff:
  "users_recentLogin tz parse now u =
     (\<exists>s t. last_login_at u = Some s \<and> s \<noteq> [] \<and> parse s = Some t \<and>
            setDate_minus_7 tz now < t)"
  unfolding users_recentLogin_def Let_def
  by (auto split: option.splits)

text \<open>
  C7, as the code has it. A user whose \<open>last_login_at\<close> is present and is the instant six
  days before the evaluation time is counted among the recent logins, and one whose
  \<open>last_login_at\<close> is seven days and one second before it is not: on the trips page
  always, and on the dashboard page when the instant seven calendar days before the
  evaluation time, in local time, is also seven times 24 hours before it, as it is in
  every zone of fixed offset. The count is the number of users that pass the test.
\<close>

theorem recent_login_window:
  "last_login_at u = Some s \<Longrightarrow> s \<noteq> [] \<Longrightarrow>
     (parse s = Some (now - 6 * msPerDay) \<longrightarrow> guides_recentLogin parse now u) \<and>
     (parse s = Some (now - (7 * msPerDay + 1000)) \<longrightarrow> \<not> guides_recentLogin parse now u) \<and>
     (setDate_minus_7 tz now = now - 7 * msPerDay \<longrightarrow>
        (parse s = Some (now - 6 * msPerDay) \<longrightarrow> users_recentLogin tz parse now u) \<and>
        (parse s = Some (now - (7 * msPerDay + 1000)) \<longrightarrow>
           \<not> users_recentLogin tz parse now u)) \<and>
     setDate_minus_7 (fixed_offset c) now = now - 7 * msPerDay \<and>
     recentLogins (users_stats tz parse now users) =
       length (filter (users_recentLogin tz parse now) users) \<and>
     recentLogins (trips_stats parse now trips) =
       length (filter (guides_recentLogin parse now) (uniqueGuides (guides trips)))"
proof -
  assume p: "last_login_at u = Some s" "s \<noteq> []"
  have a: "parse s = Some (now - 6 * msPerDay) \<longrightarrow> guides_recentLogin parse now u"
    using p by (simp add: guides_recentLogin_iff msPerDay_def)
  have b: "parse s = Some (now - (7 * msPerDay + 1000)) \<longrightarrow> \<not> guides_recentLogin parse now u"
    using p by (simp add: guides_recentLogin_iff msPerDay_def)
  have c: "setDate_minus_7 tz now = now - 7 * msPerDay \<longrightarrow>
        (parse s = Some (now - 6 * msPerDay) \<longrightarrow> users_recentLogin tz parse now u) \<and>
        (parse s = Some (now - (7 * msPerDay + 1000)) \<longrightarrow>
           \<not> users_recentLogin tz parse now u)"
    using p by (simp add: users_recentLogin_iff msPerDay_def)
  have d: "recentLogins (users_stats tz parse now users) =
       length (filter (users_recentLogin tz parse now) users)"
    by (simp add: users_stats_def Let_def)
  have e: "recentLogins (trips_stats parse now trips) =
       length (filter (guides_recentLogin parse now) (uniqueGuides (guides trips)))"
    by (simp add: trips_stats_def Let_def)
  from a b c d e setDate_minus_7_fixed_offset [of c now] show ?thesis by blast
qed

theorem recent_login_window_witness:
  "last_login_at ((sample_user 1 ''Bold'' None True)\<lparr>last_login_at := Some ''2025-10-21T12:00:00Z''\<rparr>)
     = Some ''2025-10-21T12:00:00Z'' \<and>
   ''2025-10-21T12:00:00Z'' \<noteq> [] \<and>
   setDate_minus_7 (fixed_offset 28800000) 1761566400000 = 1761566400000 - 7 * msPerDay \<and>
   guides_recentLogin (\<lambda>s. Some 1761048000000) 1761566400000
     ((sample_user 1 ''Bold'' None True)\<lparr>last_login_at := Some ''2025-10-21T12:00:00Z''\<rparr>) \<and>
   users_recentLogin (fixed_offset 28800000) (\<lambda>s. Some 1761048000000) 1761566400000
     ((sample_user 1 ''Bold'' None True)\<lparr>last_login_at := Some ''2025-10-21T12:00:00Z''\<rparr>) \<and>
   \<not> guides_recentLogin (\<lambda>s. Some 1760961599000) 1761566400000
     ((sample_user 1 ''Bold'' None True)\<lparr>last_login_at := Some ''2025-10-21T12:00:00Z''\<rparr>) \<and>
   \<not> users_recentLogin (fixed_offset 28800000) (\<lambda>s. Some 1760961599000) 1761566400000
     ((sample_user 1 ''Bold'' None True)\<lparr>last_login_at := Some ''2025-10-21T12:00:00Z''\<rparr>)"
proof -
  let ?u = "(sample_user 1 ''Bold'' None True)\<lparr>last_login_at := Some ''2025-10-21T12:00:00Z''\<rparr>"
  have p: "last_login_at ?u = Some ''2025-10-21T12:00:00Z''" "''2025-10-21T12:00:00Z'' \<noteq> []"
    by (simp_all add: sample_user_def)
  have z: "setDate_minus_7 (fixed_offset 28800000) 1761566400000 = 1761566400000 - 7 * msPerDay"
    by (simp add: setDate_minus_7_def fixed_offset_def)
  have six: "(\<lambda>s. Some 1761048000000) ''2025-10-21T12:00:00Z'' = Some (1761566400000 - 6 * msPerDay)"
    by (simp add: msPerDay_def)
  have seven: "(\<lambda>s. Some 1760961599000) ''2025-10-21T12:00:00Z'' =
      Some (1761566400000 - (7 * msPerDay + 1000))"
    by (simp add: msPerDay_def)
  from recent_login_window [OF p, of "\<lambda>s. Some 1761048000000" 1761566400000
      "fixed_offset 28800000"] z six
  have a: "guides_recentLogin (\<lambda>s. Some 1761048000000) 1761566400000 ?u \<and>
      users_recentLogin (fixed_offset 28800000) (\<lambda>s. Some 1761048000000) 1761566400000 ?u"
    by blast
  from recent_login_window [OF p, of "\<lambda>s. Some 1760961599000" 1761566400000
      "fixed_offset 28800000"] z seven
  have b: "\<not> guides_recentLogin (\<lambda>s. Some 1760961599000) 1761566400000 ?u \<and>
      \<not> users_recentLogin (fixed_offset 28800000) (\<lambda>s. Some 1760961599000) 1761566400000 ?u"
    by blast
  from p z a b show ?thesis by blast
qed

text \<open>
  In a zone whose clocks were set back by an hour within the last seven days, the
  dashboard page counts a login that lies seven days and one second before the evaluation
  time: here the evaluation time is 2025-10-27T12:00:00Z and the login 2025-10-20T11:59:59Z.
\<close>

theorem users_recentLogin_after_clock_change:
  "(1760961599000 :: int) = 1761566400000 - (7 * msPerDay + 1000) \<and>
   users_recentLogin clock_change_zone (\<lambda>s. Some 1760961599000) 1761566400000
     ((sample_user 1 ''Bold'' None True)\<lparr>last_login_at := Some ''2025-10-20T11:59:59Z''\<rparr>) \<and>
   recentLogins (users_stats clock_change_zone (\<lambda>s. Some 1760961599000) 1761566400000
     [(sample_user 1 ''Bold'' None True)\<lparr>last_login_at := Some ''2025-10-20T11:59:59Z''\<rparr>]) = 1"
  by (simp add: users_stats_def users_recentLogin_def setDate_minus_7_def clock_change_zone_def
      msPerDay_def sample_user_def)

text \<open>
  C10, as the code has it. Where seven calendar days before the evaluation time are seven
  times 24 hours, as in every zone of fixed offset, the test of the dashboard page and the
  test of the trips page agree on every user and evaluation time but one: a login exactly
  seven times 24 hours before the evaluation time is recent on the trips page and not on
  the dashboard page.
\<close>

theorem recentLogin_pages_agree_except_boundary:
  "setDate_minus_7 tz now = now - 7 * msPerDay \<Longrightarrow>
     users_recentLogin tz parse now u =
       (guides_recentLogin parse now u \<and>
        opt_field (last_login_at u) parse \<noteq> Some (now - 7 * msPerDay))"
  unfolding users_recentLogin_iff guides_recentLogin_iff
  by (auto simp: opt_field_def split: option.splits)

theorem recentLogin_pages_agree_except_boundary_witness:
  "setDate_minus_7 (fixed_offset 28800000) 1761566400000 = 1761566400000 - 7 * msPerDay \<and>
   users_recentLogin (fixed_offset 28800000) (\<lambda>s. Some 1761048000000) 1761566400000
     ((sample_user 1 ''Bold'' None True)\<lparr>last_login_at := Some ''2025-10-21T12:00:00Z''\<rparr>) \<and>
   guides_recentLogin (\<lambda>s. Some 1761048000000) 1761566400000
     ((sample_user 1 ''Bold'' None True)\<lparr>last_login_at := Some ''2025-10-21T12:00:00Z''\<rparr>)"
proof -
  let ?u = "(sample_user 1 ''Bold'' None True)\<lparr>last_login_at := Some ''2025-10-21T12:00:00Z''\<rparr>"
  have z: "setDate_minus_7 (fixed_offset 28800000) 1761566400000 = 1761566400000 - 7 * msPerDay"
    by (simp add: setDate_minus_7_def fixed_offset_def)
  have g: "guides_recentLogin (\<lambda>s. Some 1761048000000) 1761566400000 ?u"
    by (simp add: guides_recentLogin_def sample_user_def)
  have n: "opt_field (last_login_at ?u) (\<lambda>s. Some 1761048000000) \<noteq>
      Some (1761566400000 - 7 * msPerDay)"
    by (simp add: opt_field_def sample_user_def msPerDay_def)
  from recentLogin_pages_agree_except_boundary [OF z, of "\<lambda>s. Some 1761048000000" ?u] g n
  have "users_recentLogin (fixed_offset 28800000) (\<lambda>s. Some 1761048000000) 1761566400000 ?u"
    by blast
  with z g show ?thesis by blast
qed

text \<open>
  In UTC, at 2025-10-27T12:00:00Z, a login at 2025-10-20T12:00:00Z is not recent on the
  dashboard page and is recent on the trips page.
\<close>

theorem recentLogin_pages_differ_at_seven_days:
  "(1760961600000 :: int) = 1761566400000 - 7 * msPerDay \<and>
   \<not> users_recentLogin (fixed_offset 0) (\<lambda>s. Some 1760961600000) 1761566400000
     ((sample_user 1 ''Bold'' None True)\<lparr>last_login_at := Some ''2025-10-20T12:00:00Z''\<rparr>) \<and>
   guides_recentLogin (\<lambda>s. Some 1760961600000) 1761566400000
     ((sample_user 1 ''Bold'' None True)\<lparr>last_login_at := Some ''2025-10-20T12:00:00Z''\<rparr>)"
  by (simp add: users_recentLogin_def guides_recentLogin_def setDate_minus_7_def
      fixed_offset_def msPerDay_def sample_user_def)

end
